theory Spec2Isabelle
  imports Complex_Main "HOL-Library.Multiset"
begin

section \<open>Values of the JavaScript runtime\<close>

text \<open>
  A \<open>Date\<close> object as the handlers read it: \<open>getTime()\<close> (milliseconds since the
  epoch), \<open>getHours()\<close> (the hour of the day in the local time zone) and
  \<open>format(d, "yyyy-MM-dd")\<close> (the local calendar date).
\<close>

record js_date =
  getTime :: int
  getHours :: nat
  format_ymd :: string

text \<open>
  Template literals render a number with \<open>ToString\<close>; for an integer that is its
  decimal numeral, with a minus sign when it is negative.
\<close>

definition digit_char :: "nat \<Rightarrow> char" where
  "digit_char d = ''0123456789'' ! d"

function string_of_nat :: "nat \<Rightarrow> string" where
  "string_of_nat n =
     (if n < 10 then [digit_char n] else string_of_nat (n div 10) @ [digit_char (n mod 10)])"
  by pat_completeness auto
termination
  by (relation "measure id") auto

declare string_of_nat.simps [simp del]

definition string_of_int :: "int \<Rightarrow> string" where
  "string_of_int i =
     (if i < 0 then CHR ''-'' # string_of_nat (nat (- i)) else string_of_nat (nat i))"

text \<open>
  The remainder operator \<open>%\<close> of JavaScript truncates towards zero: the result has the
  sign of the dividend. \<open>Math.floor(a / b)\<close> on integers is \<open>a div b\<close> of HOL.
\<close>

definition js_rem :: "int \<Rightarrow> int \<Rightarrow> int" where
  "js_rem a b = sgn a * (\<bar>a\<bar> mod \<bar>b\<bar>)"

section \<open>The database (supabase/migrations)\<close>

text \<open>
  The enumerations \<open>attendance_status\<close> and \<open>app_role\<close>, the tables \<open>attendance\<close> and
  \<open>user_roles\<close>. A \<open>TIMESTAMPTZ\<close> is held as the instant it denotes, in milliseconds
  since the epoch (what \<open>new Date(s).getTime()\<close> gives for the stored text, and what
  \<open>toISOString\<close> wrote). The columns \<open>created_at\<close> and \<open>updated_at\<close> are read by none of
  the handlers below and are left out.
\<close>

datatype attendance_status = Present | Absent | Late | Half_day | Leave

datatype app_role = Admin | User

record attendance_row =
  row_id :: string
  user_id :: string
  date :: string
  check_in :: "int option"
  check_out :: "int option"
  status :: attendance_status
  row_notes :: "string option"

record role_row =
  role_user_id :: string
  role :: app_role

record database =
  attendance :: "attendance_row list"
  user_roles :: "role_row list"

datatype db_error =
  Rls_violation
  | Unique_violation
  | Invalid_enum_value
  | No_single_row

text \<open>\<open>public.has_role(_user_id, _role)\<close>: a row of \<open>user_roles\<close> with that user and role exists.\<close>

definition has_role :: "database \<Rightarrow> string \<Rightarrow> app_role \<Rightarrow> bool" where
  "has_role db uid r = list_ex (\<lambda>x. role_user_id x = uid \<and> role x = r) (user_roles db)"

text \<open>
  \<open>INSERT\<close> into \<open>attendance\<close> by the authenticated user \<open>uid\<close>, followed by
  \<open>.select().single()\<close>. The policies "Users can mark their own attendance"
  (\<open>WITH CHECK (auth.uid() = user_id)\<close>) and "Admins can manage all attendance" admit the
  row; the primary key and \<open>UNIQUE (user_id, date)\<close> reject a duplicate.
\<close>

definition insert_attendance ::
  "database \<Rightarrow> string \<Rightarrow> attendance_row \<Rightarrow> db_error + (database \<times> attendance_row)" where
  "insert_attendance db uid r =
     (if \<not> (uid = user_id r \<or> has_role db uid Admin) then Inl Rls_violation
      else if list_ex (\<lambda>x. row_id x = row_id r) (attendance db) then Inl Unique_violation
      else if list_ex (\<lambda>x. user_id x = user_id r \<and> date x = date r) (attendance db)
        then Inl Unique_violation
      else Inr (db\<lparr>attendance := attendance db @ [r]\<rparr>, r))"

text \<open>
  \<open>UPDATE attendance SET check_out = .., notes = .. WHERE id = ..\<close> by \<open>uid\<close>, followed by
  \<open>.select().single()\<close>. The policies "Users can update their own attendance"
  (\<open>USING (auth.uid() = user_id)\<close>) and "Admins can manage all attendance" decide which
  rows the statement sees; \<open>single()\<close> is an error unless exactly one row comes back.
\<close>

definition update_visible :: "database \<Rightarrow> string \<Rightarrow> string \<Rightarrow> attendance_row \<Rightarrow> bool" where
  "update_visible db uid rid x = (row_id x = rid \<and> (uid = user_id x \<or> has_role db uid Admin))"

definition update_check_out ::
  "database \<Rightarrow> string \<Rightarrow> string \<Rightarrow> int \<Rightarrow> string option
     \<Rightarrow> db_error + (database \<times> attendance_row)" where
  "update_check_out db uid rid t n =
     (let upd = (\<lambda>x. x\<lparr>check_out := Some t, row_notes := n\<rparr>) in
      case filter (update_visible db uid rid) (attendance db) of
        [x] \<Rightarrow>
          Inr (db\<lparr>attendance :=
                 map (\<lambda>y. if update_visible db uid rid y then upd y else y) (attendance db)\<rparr>,
               upd x)
      | _ \<Rightarrow> Inl No_single_row)"

section \<open>The attendance page (src/pages/Attendance.tsx)\<close>

text \<open>
  The component's state: the signed-in user's id (\<open>useAuth().user\<close>), today's record as
  last fetched, the notes field and the submitting flag. A handler runs against the
  database and the state and leaves a toast, if any.
\<close>

record page_state =
  user :: "string option"
  todayAttendance :: "attendance_row option"
  notes_input :: string
  isSubmitting :: bool

datatype toast =
  Check_in_successful attendance_status
  | Check_in_failed db_error
  | Check_out_successful
  | Check_out_failed db_error

text \<open>\<open>notes || null\<close>: the empty string is falsy.\<close>

definition notes_or_null :: "string \<Rightarrow> string option" where
  "notes_or_null n = (if n = [] then None else Some n)"

text \<open>Lines 71-72: \<open>const status = hour >= 9 ? "late" : "present"\<close>.\<close>

definition check_in_status :: "js_date \<Rightarrow> attendance_status" where
  "check_in_status now = (if getHours now \<ge> 9 then Late else Present)"

text \<open>
  \<open>handleCheckIn\<close>, with \<open>now = new Date()\<close> and \<open>new_id\<close> the id the database
  generates (\<open>gen_random_uuid()\<close>).
\<close>

definition handleCheckIn ::
  "js_date \<Rightarrow> string \<Rightarrow> database \<times> page_state \<Rightarrow> (database \<times> page_state) \<times> toast option" where
  "handleCheckIn now new_id s =
     (case s of (db, st) \<Rightarrow>
        (case user st of
           None \<Rightarrow> ((db, st), None)
         | Some uid \<Rightarrow>
             (let today = format_ymd now;
                  checkInTime = getTime now;
                  status = check_in_status now;
                  r = \<lparr>row_id = new_id, user_id = uid, date = today,
                       check_in = Some checkInTime, check_out = None,
                       status = status, row_notes = notes_or_null (notes_input st)\<rparr>
              in case insert_attendance db uid r of
                   Inl e \<Rightarrow> ((db, st\<lparr>isSubmitting := False\<rparr>), Some (Check_in_failed e))
                 | Inr (db', data) \<Rightarrow>
                     ((db', st\<lparr>todayAttendance := Some data, isSubmitting := False\<rparr>),
                      Some (Check_in_successful status)))))"

text \<open>
  \<open>handleCheckOut\<close>: returns at once when no record of today is loaded; otherwise it
  updates the record of that id, with no test of its \<open>check_out\<close>. The update is sent
  with the session of the signed-in user; without a session no row is visible.
\<close>

definition handleCheckOut ::
  "js_date \<Rightarrow> database \<times> page_state \<Rightarrow> (database \<times> page_state) \<times> toast option" where
  "handleCheckOut now s =
     (case s of (db, st) \<Rightarrow>
        (case todayAttendance st of
           None \<Rightarrow> ((db, st), None)
         | Some rec \<Rightarrow>
             (let checkOutTime = getTime now;
                  res = (case user st of
                           None \<Rightarrow> Inl No_single_row
                         | Some uid \<Rightarrow>
                             update_check_out db uid (row_id rec) checkOutTime
                               (notes_or_null (notes_input st)))
              in case res of
                   Inl e \<Rightarrow> ((db, st\<lparr>isSubmitting := False\<rparr>), Some (Check_out_failed e))
                 | Inr (db', data) \<Rightarrow>
                     ((db', st\<lparr>todayAttendance := Some data, isSubmitting := False\<rparr>),
                      Some Check_out_successful))))"

text \<open>
  The action button the page renders: check-in while no record is loaded, check-out
  while the record has no \<open>check_out\<close>, otherwise the "Attendance Complete" banner.
\<close>

datatype action_button = Check_in_button | Check_out_button | Attendance_complete

definition action_buttons :: "page_state \<Rightarrow> action_button" where
  "action_buttons st =
     (case todayAttendance st of
        None \<Rightarrow> Check_in_button
      | Some rec \<Rightarrow> (if check_out rec = None then Check_out_button else Attendance_complete))"

text \<open>
  \<open>calculateWorkHours\<close>: \<open>null\<close> unless the record and both of its timestamps are there;
  otherwise the difference in milliseconds, as \<open>"<hours>h <minutes>m"\<close>.
\<close>

definition work_hours :: "int \<Rightarrow> int" where
  "work_hours diffMs = diffMs div (1000 * 60 * 60)"

definition work_minutes :: "int \<Rightarrow> int" where
  "work_minutes diffMs = js_rem diffMs (1000 * 60 * 60) div (1000 * 60)"

definition calculateWorkHours :: "page_state \<Rightarrow> string option" where
  "calculateWorkHours st =
     (case todayAttendance st of
        None \<Rightarrow> None
      | Some rec \<Rightarrow>
          (case (check_in rec, check_out rec) of
             (Some checkIn, Some checkOut) \<Rightarrow>
               (let diffMs = checkOut - checkIn
                in Some (string_of_int (work_hours diffMs) @ ''h '' @
                         string_of_int (work_minutes diffMs) @ ''m''))
           | _ \<Rightarrow> None))"

section \<open>Reports and dashboard (src/pages/Reports.tsx, src/pages/Dashboard.tsx)\<close>

subsection \<open>Numbers\<close>

text \<open>
  A JavaScript number is an IEEE 754 binary64 value; a finite one is held as the real
  number it stands for. \<open>double_of\<close> is the rounding every arithmetic operation ends
  with: to the nearest value with a significand of 53 bits, and on a tie to the one
  with the even significand. A positive \<open>x\<close> is scaled by powers of two into the
  interval from \<open>2^52\<close> to \<open>2^53\<close>, where the doubles are the integers, rounded there and
  scaled back. The range of the exponent is not limited here: the pages divide a count
  by a length, both below \<open>2^32\<close>, and multiply by 100, so every value is \<open>0\<close> or lies
  between \<open>2^-32\<close> and \<open>100\<close>, far from overflow and from the subnormal numbers. A count
  is an integer below \<open>2^53\<close> and is a double as it stands.
\<close>

definition round_half_even :: "real \<Rightarrow> int" where
  "round_half_even x =
     (let n = \<lfloor>x\<rfloor>; r = x - of_int n
      in if r < 1 / 2 then n else if 1 / 2 < r then n + 1 else if even n then n else n + 1)"

lemma log2_half: "0 < x \<Longrightarrow> \<lfloor>log 2 (x / 2)\<rfloor> = \<lfloor>log 2 x\<rfloor> - 1"
proof -
  assume "0 < x"
  then have "log 2 (x / 2) = log 2 x - 1" by (simp add: log_divide)
  then show ?thesis by simp
qed

lemma log2_double: "0 < x \<Longrightarrow> \<lfloor>log 2 (2 * x)\<rfloor> = \<lfloor>log 2 x\<rfloor> + 1"
proof -
  assume "0 < x"
  then have "log 2 (2 * x) = log 2 x + 1" by (simp add: log_mult)
  then show ?thesis by simp
qed

lemma log2_ge: "2 ^ n \<le> x \<Longrightarrow> int n \<le> \<lfloor>log 2 x\<rfloor>"
proof -
  assume a: "2 ^ n \<le> x"
  have "(0 :: real) < 2 ^ n" by simp
  with a have "0 < x" by linarith
  with a have "real n \<le> log 2 x" by (simp add: le_log_iff powr_realpow)
  then show ?thesis by (simp add: le_floor_iff)
qed

lemma log2_less: "0 < x \<Longrightarrow> x < 2 ^ n \<Longrightarrow> \<lfloor>log 2 x\<rfloor> < int n"
proof -
  assume a: "0 < x" "x < 2 ^ n"
  then have "log 2 x < real n" by (simp add: log_less_iff powr_realpow)
  then show ?thesis by (simp add: floor_less_iff)
qed

function double_of_pos :: "real \<Rightarrow> real" where
  "double_of_pos x =
     (if x \<le> 0 then 0
      else if 2 ^ 53 \<le> x then 2 * double_of_pos (x / 2)
      else if x < 2 ^ 52 then double_of_pos (2 * x) / 2
      else of_int (round_half_even x))"
  by pat_completeness auto
termination
proof (relation "measure (\<lambda>x. nat \<bar>\<lfloor>log 2 x\<rfloor> - 52\<bar>)")
  show "wf (measure (\<lambda>x. nat \<bar>\<lfloor>log 2 x\<rfloor> - 52\<bar>))" by simp
next
  fix x :: real
  assume a: "\<not> x \<le> 0" "2 ^ 53 \<le> x"
  from log2_ge [OF a(2)] log2_half [of x] a(1)
  show "(x / 2, x) \<in> measure (\<lambda>x. nat \<bar>\<lfloor>log 2 x\<rfloor> - 52\<bar>)" by simp
next
  fix x :: real
  assume a: "\<not> x \<le> 0" "\<not> 2 ^ 53 \<le> x" "x < 2 ^ 52"
  from log2_less [of x 52] log2_double [of x] a
  show "(2 * x, x) \<in> measure (\<lambda>x. nat \<bar>\<lfloor>log 2 x\<rfloor> - 52\<bar>)" by simp
qed

declare double_of_pos.simps [simp del]

definition double_of :: "real \<Rightarrow> real" where
  "double_of x = (if x < 0 then - double_of_pos (- x) else double_of_pos x)"

text \<open>The operators \<open>/\<close> and \<open>*\<close> on two doubles, the divisor not zero.\<close>

definition js_divide :: "real \<Rightarrow> real \<Rightarrow> real" where
  "js_divide a b = double_of (a / b)"

definition js_multiply :: "real \<Rightarrow> real \<Rightarrow> real" where
  "js_multiply a b = double_of (a * b)"

text \<open>
  \<open>toFixed(1)\<close> of a double \<open>x\<close> below \<open>10^21\<close>: the integer \<open>n\<close> for which \<open>n / 10\<close> is
  nearest to the value of \<open>x\<close> (the larger one on a tie), written with one digit after
  the point.
\<close>

definition toFixed1 :: "real \<Rightarrow> string" where
  "toFixed1 x =
     (let a = \<bar>x\<bar>;
          n = \<lfloor>a * 10 + 1 / 2\<rfloor>
      in (if x < 0 then ''-'' else []) @
         string_of_int (n div 10) @ ''.'' @ string_of_int (n mod 10))"

subsection \<open>The statistics\<close>

text \<open>\<open>stats\<close> of Reports.tsx: one \<open>filter(..).length\<close> per status.\<close>

record status_counts =
  present :: nat
  late :: nat
  absent :: nat
  half_day :: nat
  leave :: nat

definition stats :: "attendance_row list \<Rightarrow> status_counts" where
  "stats records =
     \<lparr>present = length (filter (\<lambda>a. status a = Present) records),
      late = length (filter (\<lambda>a. status a = Late) records),
      absent = length (filter (\<lambda>a. status a = Absent) records),
      half_day = length (filter (\<lambda>a. status a = Half_day) records),
      leave = length (filter (\<lambda>a. status a = Leave) records)\<rparr>"

text \<open>\<open>pieData\<close>: the five slices (name, value, colour), those of value 0 removed.\<close>

definition pieData :: "attendance_row list \<Rightarrow> (string \<times> nat \<times> string) list" where
  "pieData records =
     filter (\<lambda>d. fst (snd d) > 0)
       [(''Present'', present (stats records), ''hsl(142, 71%, 45%)''),
        (''Late'', late (stats records), ''hsl(38, 92%, 50%)''),
        (''Absent'', absent (stats records), ''hsl(0, 84%, 60%)''),
        (''Half Day'', half_day (stats records), ''hsl(185, 64%, 39%)''),
        (''Leave'', leave (stats records), ''hsl(215, 16%, 47%)'')]"

text \<open>
  The attendance rate of Reports.tsx, line 117,
  \<open>totalDays > 0 ? (((stats.present + stats.late) / totalDays) * 100).toFixed(1) : 0\<close>:
  the number \<open>0\<close> for no records, otherwise the string \<open>toFixed(1)\<close> returns.
\<close>

datatype rate_value = Rate_number real | Rate_text string

definition attendanceRate :: "attendance_row list \<Rightarrow> rate_value" where
  "attendanceRate records =
     (let totalDays = length records in
      if totalDays > 0
      then Rate_text (toFixed1
             (js_multiply
                (js_divide (of_nat (present (stats records) + late (stats records)))
                   (of_nat totalDays))
                100))
      else Rate_number 0)"

text \<open>
  The statistics \<open>fetchDashboardData\<close> of Dashboard.tsx derives from the month's rows,
  when the query returned any data; line 63,
  \<open>totalDays > 0 ? ((presentDays + lateDays) / totalDays) * 100 : 0\<close>, is a double.
\<close>

record AttendanceStats =
  totalDays :: nat
  presentDays :: nat
  lateDays :: nat
  absentDays :: nat
  dashboardRate :: real

definition dashboard_stats :: "attendance_row list \<Rightarrow> AttendanceStats" where
  "dashboard_stats monthData =
     (let presentDays = length (filter (\<lambda>a. status a = Present) monthData);
          lateDays = length (filter (\<lambda>a. status a = Late) monthData);
          absentDays = length (filter (\<lambda>a. status a = Absent) monthData);
          totalDays = length monthData;
          attendanceRate =
            (if totalDays > 0
             then js_multiply (js_divide (of_nat (presentDays + lateDays)) (of_nat totalDays)) 100
             else 0)
      in \<lparr>totalDays = totalDays, presentDays = presentDays, lateDays = lateDays,
          absentDays = absentDays, dashboardRate = attendanceRate\<rparr>)"

text \<open>
  \<open>weeklyData\<close>: the object \<open>weeks\<close> keeps its keys in the order of their first
  insertion, and \<open>Object.entries\<close> lists them in that order; it is held as an association
  list. \<open>getDate\<close> stands for \<open>new Date(record.date).getDate()\<close>, the day of the month.
  \<open>Math.ceil\<close> is applied to the exact quotient by 7: for the days 1 to 31 the double the
  page divides to has the same ceiling (lemma \<open>week_quotient_double\<close>).
\<close>

record week_counts =
  week_present :: nat
  week_late :: nat
  week_absent :: nat

definition week_label :: "(string \<Rightarrow> nat) \<Rightarrow> attendance_row \<Rightarrow> string" where
  "week_label getDate r =
     ''Week '' @ string_of_int \<lceil>(of_nat (getDate (date r)) :: real) / 7\<rceil>"

definition count_status :: "attendance_status \<Rightarrow> week_counts \<Rightarrow> week_counts" where
  "count_status s w =
     (if s = Present then w\<lparr>week_present := week_present w + 1\<rparr>
      else if s = Late then w\<lparr>week_late := week_late w + 1\<rparr>
      else if s = Absent then w\<lparr>week_absent := week_absent w + 1\<rparr>
      else w)"

definition weeks_step ::
  "(string \<Rightarrow> nat) \<Rightarrow> (string \<times> week_counts) list \<Rightarrow> attendance_row
     \<Rightarrow> (string \<times> week_counts) list" where
  "weeks_step getDate weeks r =
     (let weekNum = week_label getDate r;
          weeks1 = (if map_of weeks weekNum = None
                    then weeks @ [(weekNum, \<lparr>week_present = 0, week_late = 0, week_absent = 0\<rparr>)]
                    else weeks)
      in map (\<lambda>e. if fst e = weekNum then (fst e, count_status (status r) (snd e)) else e) weeks1)"

definition weeklyData ::
  "(string \<Rightarrow> nat) \<Rightarrow> attendance_row list \<Rightarrow> (string \<times> week_counts) list" where
  "weeklyData getDate records = foldl (weeks_step getDate) [] records"

text \<open>
  The counters of one week read off the records directly: how many records carry the
  week's label and the status. The buckets are compared with these.
\<close>

definition zero_week :: week_counts where
  "zero_week = \<lparr>week_present = 0, week_late = 0, week_absent = 0\<rparr>"

definition week_total :: "(string \<Rightarrow> nat) \<Rightarrow> attendance_row list \<Rightarrow> string \<Rightarrow> week_counts" where
  "week_total g xs k =
     \<lparr>week_present = length (filter (\<lambda>r. week_label g r = k \<and> status r = Present) xs),
      week_late = length (filter (\<lambda>r. week_label g r = k \<and> status r = Late) xs),
      week_absent = length (filter (\<lambda>r. week_label g r = k \<and> status r = Absent) xs)\<rparr>"

text \<open>
  The day of the month a \<open>yyyy-MM-dd\<close> text ends in: what \<open>getDate()\<close> returns where the
  local zone is at or east of UTC.
\<close>

definition digit_value :: "char \<Rightarrow> nat" where
  "digit_value c = of_char c - 48"

definition day_of_ymd :: "string \<Rightarrow> nat" where
  "day_of_ymd s = digit_value (s ! 8) * 10 + digit_value (s ! 9)"

section \<open>User administration (src/pages/AdminUsers.tsx)\<close>

text \<open>
  The two statements of \<open>handleRoleChange\<close> against \<open>user_roles\<close>, sent by the signed-in
  user \<open>caller\<close>. The policy "Admins can manage roles" (\<open>FOR ALL USING
  (has_role(auth.uid(), 'admin'))\<close>) hides every row from a \<open>DELETE\<close> by anyone else (no
  row is deleted, no error is raised) and rejects their \<open>INSERT\<close>; it is evaluated anew
  for each statement. The column \<open>role\<close> takes the values of \<open>app_role\<close> only, and
  \<open>UNIQUE (user_id, role)\<close> rejects a repeated pair.
\<close>

definition parse_app_role :: "string \<Rightarrow> app_role option" where
  "parse_app_role s =
     (if s = ''admin'' then Some Admin else if s = ''user'' then Some User else None)"

definition delete_user_roles :: "database \<Rightarrow> string \<Rightarrow> string \<Rightarrow> database" where
  "delete_user_roles db caller userId =
     (if has_role db caller Admin
      then db\<lparr>user_roles := filter (\<lambda>x. role_user_id x \<noteq> userId) (user_roles db)\<rparr>
      else db)"

definition insert_user_role :: "database \<Rightarrow> string \<Rightarrow> string \<Rightarrow> string \<Rightarrow> db_error + database" where
  "insert_user_role db caller userId newRole =
     (case parse_app_role newRole of
        None \<Rightarrow> Inl Invalid_enum_value
      | Some r \<Rightarrow>
          if \<not> has_role db caller Admin then Inl Rls_violation
          else if list_ex (\<lambda>x. role_user_id x = userId \<and> role x = r) (user_roles db)
            then Inl Unique_violation
          else Inr (db\<lparr>user_roles := user_roles db @ [\<lparr>role_user_id = userId, role = r\<rparr>]\<rparr>))"

text \<open>
  \<open>handleRoleChange\<close>: the delete, whose result is not looked at, then the insert, whose
  error is thrown to the \<open>catch\<close>. \<open>userRoles\<close> is the page's map from user id to role.
\<close>

datatype role_toast = Role_updated | Failed_to_update_role db_error

definition handleRoleChange ::
  "string \<Rightarrow> string \<Rightarrow> string \<Rightarrow> database \<times> (string \<rightharpoonup> string)
     \<Rightarrow> (database \<times> (string \<rightharpoonup> string)) \<times> role_toast" where
  "handleRoleChange caller userId newRole s =
     (case s of (db, userRoles) \<Rightarrow>
        (let db1 = delete_user_roles db caller userId in
         case insert_user_role db1 caller userId newRole of
           Inl e \<Rightarrow> ((db1, userRoles), Failed_to_update_role e)
         | Inr db2 \<Rightarrow> ((db2, userRoles(userId \<mapsto> newRole)), Role_updated)))"

text \<open>The role rows a user holds.\<close>

definition roles_of :: "database \<Rightarrow> string \<Rightarrow> role_row list" where
  "roles_of db userId = filter (\<lambda>x. role_user_id x = userId) (user_roles db)"

section \<open>The AI gateway (supabase/functions/attendance-ai/index.ts)\<close>

text \<open>
  Rows and profile as the gateway receives them from the database client: JSON objects
  with text fields, \<open>null\<close> as \<open>None\<close>. A text is truthy when it is there and not empty.
\<close>

record api_attendance =
  a_date :: string
  a_status :: string
  a_check_in :: "string option"
  a_check_out :: "string option"
  a_notes :: "string option"

record api_profile =
  full_name :: string
  email :: string
  department :: "string option"

record chat_message =
  msg_role :: string
  content :: string

definition truthy_text :: "string option \<Rightarrow> bool" where
  "truthy_text t = (case t of None \<Rightarrow> False | Some s \<Rightarrow> s \<noteq> [])"

definition newline :: string where
  "newline = [CHR 0x0A]"

text \<open>\<open>Array.prototype.join\<close> on texts.\<close>

fun join :: "string \<Rightarrow> string list \<Rightarrow> string" where
  "join sep [] = []"
| "join sep [x] = x"
| "join sep (x # y # ys) = x @ sep @ join sep (y # ys)"

text \<open>\<open>String.prototype.replace\<close> with a text pattern: the first occurrence only.\<close>

fun replace_first :: "string \<Rightarrow> string \<Rightarrow> string \<Rightarrow> string" where
  "replace_first pat rep [] = (if pat = [] then rep else [])"
| "replace_first pat rep (c # cs) =
     (if take (length pat) (c # cs) = pat then rep @ drop (length pat) (c # cs)
      else c # replace_first pat rep cs)"

text \<open>Lines 59-62: one line per record under a heading, or the placeholder for \<open>null\<close>.\<close>

definition attendance_line :: "api_attendance \<Rightarrow> string" where
  "attendance_line a =
     ''- '' @ a_date a @ '': '' @ a_status a @
     (if truthy_text (a_check_in a) then '', check-in: '' @ the (a_check_in a) else []) @
     (if truthy_text (a_check_out a) then '', check-out: '' @ the (a_check_out a) else []) @
     (if truthy_text (a_notes a) then '', notes: '' @ the (a_notes a) else [])"

definition attendanceContext :: "api_attendance list option \<Rightarrow> string" where
  "attendanceContext attendance_data =
     (case attendance_data of
        Some rows \<Rightarrow>
          ''User's recent attendance records (last 100 days):'' @ newline @
          join newline (map attendance_line rows)
      | None \<Rightarrow> ''No attendance records found.'')"

text \<open>Lines 64-66.\<close>

definition userContext :: "api_profile option \<Rightarrow> string" where
  "userContext profile =
     (case profile of
        Some p \<Rightarrow>
          ''User: '' @ full_name p @ '', Email: '' @ email p @ '', Department: '' @
          (if truthy_text (department p) then the (department p) else ''Not specified'')
      | None \<Rightarrow> ''User profile not found.'')"

text \<open>Lines 68-82; \<open>today\<close> is \<open>new Date().toISOString().split("T")[0]\<close>.\<close>

definition systemPrompt :: "string \<Rightarrow> api_profile option \<Rightarrow> api_attendance list option \<Rightarrow> string" where
  "systemPrompt today profile attendance_data =
     ''You are an intelligent attendance assistant for AttendanceIQ. You help users understand their attendance patterns, answer questions about their records, and provide insights.'' @
     newline @ newline @
     ''Current date: '' @ today @ newline @ newline @
     userContext profile @ newline @ newline @
     attendanceContext attendance_data @ newline @ newline @
     ''Guidelines:'' @ newline @
     ''- Be helpful and conversational'' @ newline @
     ''- Provide specific insights based on the user's actual data'' @ newline @
     ''- Calculate statistics like attendance rate, average check-in time, etc. when asked'' @ newline @
     ''- Identify patterns like frequent late arrivals on specific days'' @ newline @
     ''- Keep responses concise but informative'' @ newline @
     ''- If asked about data you don't have, explain what information is available''"

text \<open>
  What one invocation meets. A thrown exception is \<open>Inl\<close> of its message.
  \<open>req_json\<close> is \<open>await req.json()\<close> destructured to \<open>messages\<close>; \<open>auth_getUser\<close>
  gives the user id for a token the identity service accepts; \<open>attendance_rows\<close> and
  \<open>profile_row\<close> are the \<open>data\<close> of the two queries for that user (\<open>null\<close> when the query
  failed; the rows, at most 100 and newest first, otherwise); \<open>upstream\<close> is the \<open>fetch\<close>
  of the chat-completion service with the messages sent. The body of the request holds
  a list of messages, as the contract of the endpoint has it, and the body of the
  upstream response is its text: read in full where the gateway logs it, passed on as a
  stream where the gateway answers with it.
\<close>

record upstream_response =
  up_status :: nat
  up_body :: string

record gateway_env =
  req_method :: string
  req_json :: "string + chat_message list"
  authorization :: "string option"
  SUPABASE_URL :: "string option"
  SUPABASE_SERVICE_ROLE_KEY :: "string option"
  auth_getUser :: "string \<Rightarrow> string option"
  attendance_rows :: "string \<Rightarrow> api_attendance list option"
  profile_row :: "string \<Rightarrow> api_profile option"
  today_iso :: string
  LOVABLE_API_KEY :: "string option"
  upstream :: "chat_message list \<Rightarrow> string + upstream_response"

text \<open>
  A response: status, content type and body. Every response but the one to \<open>OPTIONS\<close>
  carries a content type; all carry the CORS headers, which are left out.
\<close>

datatype response_body = Empty_body | Error_json string | Stream_of string

record http_response =
  resp_status :: nat
  resp_content_type :: "string option"
  resp_body :: response_body

datatype log_entry = AI_gateway_error nat string | Attendance_AI_error string

definition error_response :: "nat \<Rightarrow> string \<Rightarrow> http_response" where
  "error_response code msg =
     \<lparr>resp_status = code, resp_content_type = Some ''application/json'',
      resp_body = Error_json msg\<rparr>"

text \<open>\<open>response.ok\<close>: a status from 200 to 299.\<close>

definition response_ok :: "upstream_response \<Rightarrow> bool" where
  "response_ok r = (200 \<le> up_status r \<and> up_status r \<le> 299)"

text \<open>Lines 108-131: what the gateway answers to the upstream response, and what it logs.\<close>

definition translate_upstream :: "upstream_response \<Rightarrow> http_response \<times> log_entry list" where
  "translate_upstream r =
     (if \<not> response_ok r then
        (if up_status r = 429 then (error_response 429 ''Rate limit exceeded'', [])
         else if up_status r = 402 then (error_response 402 ''Payment required'', [])
         else (error_response 500 ''AI gateway error'', [AI_gateway_error (up_status r) (up_body r)]))
      else (\<lparr>resp_status = 200, resp_content_type = Some ''text/event-stream'',
             resp_body = Stream_of (up_body r)\<rparr>, []))"

text \<open>The \<open>catch\<close> of the handler: the error is logged and reported with status 500.\<close>

definition caught :: "string \<Rightarrow> http_response \<times> log_entry list" where
  "caught msg = (error_response 500 msg, [Attendance_AI_error msg])"

text \<open>\<open>createClient\<close> throws when the URL or the key is missing.\<close>

definition createClient :: "gateway_env \<Rightarrow> string + unit" where
  "createClient env =
     (if \<not> truthy_text (SUPABASE_URL env) then Inl ''supabaseUrl is required.''
      else if \<not> truthy_text (SUPABASE_SERVICE_ROLE_KEY env) then Inl ''supabaseKey is required.''
      else Inr ())"

text \<open>The messages sent upstream: the system instruction, then the caller's history.\<close>

definition upstream_messages :: "gateway_env \<Rightarrow> string \<Rightarrow> chat_message list \<Rightarrow> chat_message list" where
  "upstream_messages env uid messages =
     \<lparr>msg_role = ''system'',
      content = systemPrompt (today_iso env) (profile_row env uid) (attendance_rows env uid)\<rparr>
     # messages"

text \<open>The handler passed to \<open>serve\<close>.\<close>

definition serve_handler :: "gateway_env \<Rightarrow> http_response \<times> log_entry list" where
  "serve_handler env =
     (if req_method env = ''OPTIONS''
      then (\<lparr>resp_status = 200, resp_content_type = None, resp_body = Empty_body\<rparr>, [])
      else (case req_json env of
        Inl msg \<Rightarrow> caught msg
      | Inr messages \<Rightarrow>
          (if \<not> truthy_text (authorization env) then (error_response 401 ''Unauthorized'', [])
           else (case createClient env of
             Inl msg \<Rightarrow> caught msg
           | Inr _ \<Rightarrow>
               (let token = replace_first ''Bearer '' [] (the (authorization env)) in
                (case auth_getUser env token of
                   None \<Rightarrow> (error_response 401 ''Invalid token'', [])
                 | Some uid \<Rightarrow>
                     (if \<not> truthy_text (LOVABLE_API_KEY env)
                      then (error_response 500 ''AI service not configured'', [])
                      else (case upstream env (upstream_messages env uid messages) of
                        Inl msg \<Rightarrow> caught msg
                      | Inr response \<Rightarrow> translate_upstream response))))))))"

text \<open>
  An invocation gets as far as the answer of the chat-completion service: it is no
  \<open>OPTIONS\<close> request, its body is read, its token is accepted for the user \<open>uid\<close>, the
  configuration is there and the \<open>fetch\<close> returns the response \<open>r\<close>.
\<close>

definition reaches_upstream ::
  "gateway_env \<Rightarrow> string \<Rightarrow> chat_message list \<Rightarrow> upstream_response \<Rightarrow> bool" where
  "reaches_upstream env uid ms r =
     (req_method env \<noteq> ''OPTIONS'' \<and> req_json env = Inr ms \<and>
      truthy_text (authorization env) \<and> createClient env = Inr () \<and>
      auth_getUser env (replace_first ''Bearer '' [] (the (authorization env))) = Some uid \<and>
      truthy_text (LOVABLE_API_KEY env) \<and>
      upstream env (upstream_messages env uid ms) = Inr r)"

section \<open>The chat stream consumer (AIAssistant, \<open>sendMessage\<close>)\<close>

text \<open>
  The component \<open>AIAssistant\<close> stands in the file under \<open>supabase/migrations\<close>, behind
  the SQL; the line numbers below are those of that file.
\<close>

subsection \<open>Texts\<close>

text \<open>
  A text is the list of its code units, here those below 256. \<open>trim\<close> removes white
  space and line terminators at both ends.
\<close>

definition js_space :: "char \<Rightarrow> bool" where
  "js_space c = (c \<in> {CHR 0x09, CHR 0x0A, CHR 0x0B, CHR 0x0C, CHR 0x0D, CHR '' '', CHR 0xA0})"

definition trim :: "string \<Rightarrow> string" where
  "trim s = rev (dropWhile js_space (rev (dropWhile js_space s)))"

definition startsWith :: "string \<Rightarrow> string \<Rightarrow> bool" where
  "startsWith p s = (take (length p) s = p)"

definition endsWith :: "string \<Rightarrow> string \<Rightarrow> bool" where
  "endsWith p s = (length p \<le> length s \<and> drop (length s - length p) s = p)"

text \<open>\<open>indexOf\<close> for one character; \<open>None\<close> is the result \<open>-1\<close>.\<close>

fun indexOf :: "char \<Rightarrow> string \<Rightarrow> nat option" where
  "indexOf c [] = None"
| "indexOf c (x # xs) = (if x = c then Some 0 else map_option Suc (indexOf c xs))"

subsection \<open>JSON values and the property chain\<close>

text \<open>
  What \<open>JSON.parse\<close> returns. A number is held as the text \<open>ToString\<close> gives for it
  (\<open>0\<close> for both zeros), an object as its properties with distinct names. \<open>undefined\<close> is
  \<open>None\<close> of \<open>json option\<close>.
\<close>

datatype json =
  JNull
  | JBool bool
  | JNumber string
  | JString string
  | JArray "json list"
  | JObject "(string \<times> json) list"

text \<open>
  \<open>v.name\<close> and \<open>v[0]\<close> on a value that is neither \<open>null\<close> nor \<open>undefined\<close>, for the
  names \<open>choices\<close>, \<open>delta\<close> and \<open>content\<close>, which no prototype defines: an own property
  of an object, the first element of an array, the first character of a text.
\<close>

definition get_prop :: "string \<Rightarrow> json \<Rightarrow> json option" where
  "get_prop name v = (case v of JObject ps \<Rightarrow> map_of ps name | _ \<Rightarrow> None)"

definition get_index0 :: "json \<Rightarrow> json option" where
  "get_index0 v =
     (case v of
        JArray xs \<Rightarrow> (case xs of [] \<Rightarrow> None | x # _ \<Rightarrow> Some x)
      | JString s \<Rightarrow> (case s of [] \<Rightarrow> None | c # _ \<Rightarrow> Some (JString [c]))
      | JObject ps \<Rightarrow> map_of ps ''0''
      | _ \<Rightarrow> None)"

text \<open>The optional chain \<open>v?.p\<close>: \<open>undefined\<close> when \<open>v\<close> is \<open>null\<close> or \<open>undefined\<close>.\<close>

definition opt_chain :: "(json \<Rightarrow> json option) \<Rightarrow> json option \<Rightarrow> json option" where
  "opt_chain f v = (case v of None \<Rightarrow> None | Some JNull \<Rightarrow> None | Some x \<Rightarrow> f x)"

text \<open>
  Line 290, \<open>parsed.choices?.[0]?.delta?.content\<close>. Reading \<open>choices\<close> of \<open>null\<close> throws
  a \<open>TypeError\<close>: the outer \<open>None\<close>.
\<close>

definition delta_content :: "json \<Rightarrow> json option option" where
  "delta_content parsed =
     (if parsed = JNull then None
      else Some (opt_chain (get_prop ''content'')
                  (opt_chain (get_prop ''delta'')
                    (opt_chain get_index0 (get_prop ''choices'' parsed)))))"

text \<open>\<open>if (content)\<close> and the text \<open>assistantContent += content\<close> appends.\<close>

fun js_truthy :: "json option \<Rightarrow> bool" where
  "js_truthy None = False"
| "js_truthy (Some JNull) = False"
| "js_truthy (Some (JBool b)) = b"
| "js_truthy (Some (JNumber n)) = (n \<noteq> ''0'' \<and> n \<noteq> ''NaN'')"
| "js_truthy (Some (JString s)) = (s \<noteq> [])"
| "js_truthy (Some (JArray xs)) = True"
| "js_truthy (Some (JObject ps)) = True"

fun js_to_string :: "json \<Rightarrow> string" where
  "js_to_string JNull = ''null''"
| "js_to_string (JBool b) = (if b then ''true'' else ''false'')"
| "js_to_string (JNumber n) = n"
| "js_to_string (JString s) = s"
| "js_to_string (JArray xs) =
     join '','' (map (\<lambda>x. if x = JNull then [] else js_to_string x) xs)"
| "js_to_string (JObject ps) = ''[object Object]''"

subsection \<open>The read loop\<close>

text \<open>
  The variables of \<open>sendMessage\<close> the loop works on, the \<open>messages\<close> state of the
  component, and \<open>updates\<close>: the content of each \<open>setMessages\<close> call the loop makes, in
  order.
\<close>

record stream_state =
  textBuffer :: string
  assistantContent :: string
  streamDone :: bool
  messages :: "chat_message list"
  updates :: "string list"

text \<open>
  Lines 292-300: the content is appended and the last message is replaced by the
  assistant's text so far.
\<close>

definition replace_last :: "chat_message list \<Rightarrow> chat_message \<Rightarrow> chat_message list" where
  "replace_last prev m = (if prev = [] then [] else butlast prev @ [m])"

definition append_content :: "json \<Rightarrow> stream_state \<Rightarrow> stream_state" where
  "append_content c st =
     (let a = assistantContent st @ js_to_string c
      in st\<lparr>assistantContent := a,
            messages := replace_last (messages st) \<lparr>msg_role = ''assistant'', content = a\<rparr>,
            updates := updates st @ [a]\<rparr>)"

text \<open>
  What the body of the inner loop decides for a line (lines 278-305), after the line was
  cut from the buffer: go on to the next line, with or without an append; stop with
  \<open>streamDone\<close>; or put the line back and stop. \<open>JSON_parse\<close> is \<open>JSON.parse\<close>, \<open>None\<close>
  when it throws.
\<close>

datatype line_step = Next_line | Append json | Stream_done | Push_back

definition strip_cr :: "string \<Rightarrow> string" where
  "strip_cr line = (if endsWith [CHR 0x0D] line then butlast line else line)"

definition process_line :: "(string \<Rightarrow> json option) \<Rightarrow> string \<Rightarrow> line_step" where
  "process_line JSON_parse line =
     (if startsWith '':'' line \<or> trim line = [] then Next_line
      else if \<not> startsWith ''data: '' line then Next_line
      else (let jsonStr = trim (drop 6 line) in
        if jsonStr = ''[DONE]'' then Stream_done
        else (case JSON_parse jsonStr of
                None \<Rightarrow> Push_back
              | Some parsed \<Rightarrow>
                  (case delta_content parsed of
                     None \<Rightarrow> Push_back
                   | Some c \<Rightarrow> (if js_truthy c then Append (the c) else Next_line)))))"

text \<open>An index \<open>indexOf\<close> finds lies inside the text: cutting the line shortens the buffer.\<close>

lemma indexOf_less_length: "indexOf c s = Some i \<Longrightarrow> i < length s"
  by (induction s arbitrary: i) (auto split: if_splits)

text \<open>Lines 274-306: the loop over the complete lines of the buffer.\<close>

function inner_loop :: "(string \<Rightarrow> json option) \<Rightarrow> stream_state \<Rightarrow> stream_state" where
  "inner_loop JSON_parse st =
     (case indexOf (CHR 0x0A) (textBuffer st) of
        None \<Rightarrow> st
      | Some newlineIndex \<Rightarrow>
          (let line = strip_cr (take newlineIndex (textBuffer st));
               st1 = st\<lparr>textBuffer := drop (newlineIndex + 1) (textBuffer st)\<rparr>
           in case process_line JSON_parse line of
                Next_line \<Rightarrow> inner_loop JSON_parse st1
              | Append c \<Rightarrow> inner_loop JSON_parse (append_content c st1)
              | Stream_done \<Rightarrow> st1\<lparr>streamDone := True\<rparr>
              | Push_back \<Rightarrow> st1\<lparr>textBuffer := line @ newline @ textBuffer st1\<rparr>))"
  by pat_completeness auto
termination
  by (relation "measure (\<lambda>(p, st). length (textBuffer st))")
     (auto simp: append_content_def Let_def dest: indexOf_less_length)

declare inner_loop.simps [simp del]

text \<open>
  Lines 268-307: the loop over the reads. The stream is the list of the texts its reads
  deliver (each chunk decoded with \<open>stream: true\<close>), after which \<open>done\<close> is signalled.
\<close>

fun read_loop :: "(string \<Rightarrow> json option) \<Rightarrow> string list \<Rightarrow> stream_state \<Rightarrow> stream_state" where
  "read_loop JSON_parse [] st = st"
| "read_loop JSON_parse (v # later) st =
     (if streamDone st then st
      else read_loop JSON_parse later
             (inner_loop JSON_parse (st\<lparr>textBuffer := textBuffer st @ v\<rparr>)))"

text \<open>
  The state the loop starts in (lines 219 and 260-266): \<open>prev\<close> are the messages shown,
  the user's included, to which the empty assistant message is added.
\<close>

definition initial_stream_state :: "chat_message list \<Rightarrow> stream_state" where
  "initial_stream_state prev =
     \<lparr>textBuffer = [], assistantContent = [], streamDone = False,
      messages = prev @ [\<lparr>msg_role = ''assistant'', content = []\<rparr>], updates = []\<rparr>"

definition consume_stream ::
  "(string \<Rightarrow> json option) \<Rightarrow> chat_message list \<Rightarrow> string list \<Rightarrow> stream_state" where
  "consume_stream JSON_parse prev chunks =
     read_loop JSON_parse chunks (initial_stream_state prev)"

text \<open>
  Two notions for the statements about the loop. What the reads leave behind apart from
  the buffer: the content, the messages, the updates made and the flag. And a buffer at
  whose first line the loop is held: the line is one to put back.
\<close>

definition result_of :: "stream_state \<Rightarrow> string \<times> chat_message list \<times> string list \<times> bool" where
  "result_of st = (assistantContent st, messages st, updates st, streamDone st)"

definition held_back :: "(string \<Rightarrow> json option) \<Rightarrow> stream_state \<Rightarrow> bool" where
  "held_back JSON_parse st =
     (case indexOf (CHR 0x0A) (textBuffer st) of
        None \<Rightarrow> False
      | Some i \<Rightarrow> process_line JSON_parse (strip_cr (take i (textBuffer st))) = Push_back)"

section \<open>Concrete inputs\<close>

text \<open>
  A day in the life of user \<open>u1\<close>: the clock at 08:00, 09:00, 17:30 and 18:00 (UTC) of
  22 January 2026, the database and the page before check-in, after check-in and after
  check-out.
\<close>

definition now8 :: js_date where
  "now8 = \<lparr>getTime = 1769068800000, getHours = 8, format_ymd = ''2026-01-22''\<rparr>"

definition now9 :: js_date where
  "now9 = \<lparr>getTime = 1769072400000, getHours = 9, format_ymd = ''2026-01-22''\<rparr>"

definition now17 :: js_date where
  "now17 = \<lparr>getTime = 1769103000000, getHours = 17, format_ymd = ''2026-01-22''\<rparr>"

definition now18 :: js_date where
  "now18 = \<lparr>getTime = 1769104800000, getHours = 18, format_ymd = ''2026-01-22''\<rparr>"

definition db_empty :: database where
  "db_empty = \<lparr>attendance = [], user_roles = [\<lparr>role_user_id = ''u1'', role = User\<rparr>]\<rparr>"

definition st_unmarked :: page_state where
  "st_unmarked =
     \<lparr>user = Some ''u1'', todayAttendance = None, notes_input = [], isSubmitting = False\<rparr>"

definition row_in :: attendance_row where
  "row_in = \<lparr>row_id = ''r1'', user_id = ''u1'', date = ''2026-01-22'',
             check_in = Some 1769072400000, check_out = None, status = Late, row_notes = None\<rparr>"

definition row_out :: attendance_row where
  "row_out = row_in\<lparr>check_out := Some 1769103000000\<rparr>"

definition db_in :: database where
  "db_in = db_empty\<lparr>attendance := [row_in]\<rparr>"

definition st_in :: page_state where
  "st_in = st_unmarked\<lparr>todayAttendance := Some row_in\<rparr>"

definition db_out :: database where
  "db_out = db_empty\<lparr>attendance := [row_out]\<rparr>"

definition st_out :: page_state where
  "st_out = st_unmarked\<lparr>todayAttendance := Some row_out\<rparr>"

text \<open>A record of user \<open>u1\<close> for a date, with a status.\<close>

definition row_on :: "string \<Rightarrow> attendance_status \<Rightarrow> attendance_row" where
  "row_on d s = \<lparr>row_id = d, user_id = ''u1'', date = d, check_in = None, check_out = None,
                 status = s, row_notes = None\<rparr>"

text \<open>Ten records: seven present, one late, two absent; and three: one present, two absent.\<close>

definition ten_records :: "attendance_row list" where
  "ten_records =
     [row_on ''2026-01-05'' Present, row_on ''2026-01-06'' Present, row_on ''2026-01-07'' Present,
      row_on ''2026-01-08'' Late, row_on ''2026-01-09'' Present, row_on ''2026-01-12'' Absent,
      row_on ''2026-01-13'' Present, row_on ''2026-01-14'' Present, row_on ''2026-01-15'' Absent,
      row_on ''2026-01-16'' Present]"

definition three_records :: "attendance_row list" where
  "three_records =
     [row_on ''2026-01-05'' Present, row_on ''2026-01-06'' Absent, row_on ''2026-01-07'' Absent]"

text \<open>Twenty records, the working days of four weeks: eleven present, nine absent.\<close>

definition twenty_records :: "attendance_row list" where
  "twenty_records =
     map (\<lambda>d. row_on d Present)
       [''2026-01-05'', ''2026-01-06'', ''2026-01-07'', ''2026-01-08'', ''2026-01-09'',
        ''2026-01-12'', ''2026-01-13'', ''2026-01-14'', ''2026-01-15'', ''2026-01-16'',
        ''2026-01-19''] @
     map (\<lambda>d. row_on d Absent)
       [''2026-01-20'', ''2026-01-21'', ''2026-01-22'', ''2026-01-23'', ''2026-01-26'',
        ''2026-01-27'', ''2026-01-28'', ''2026-01-29'', ''2026-01-30'']"

text \<open>The role table with the administrator \<open>a1\<close> and the user \<open>u1\<close>.\<close>

definition db_roles :: database where
  "db_roles = \<lparr>attendance = [],
                user_roles = [\<lparr>role_user_id = ''a1'', role = Admin\<rparr>,
                              \<lparr>role_user_id = ''u1'', role = User\<rparr>]\<rparr>"

text \<open>
  An invocation of the gateway by user \<open>u1\<close> with a valid token, whose attendance query
  returns no rows, and to which the chat-completion service answers with a stream.
\<close>

definition env_no_records :: gateway_env where
  "env_no_records =
     \<lparr>req_method = ''POST'',
      req_json = Inr [\<lparr>msg_role = ''user'', content = ''How often was I late?''\<rparr>],
      authorization = Some ''Bearer token-u1'',
      SUPABASE_URL = Some ''https://project.supabase.co'',
      SUPABASE_SERVICE_ROLE_KEY = Some ''service-key'',
      auth_getUser = (\<lambda>t. if t = ''token-u1'' then Some ''u1'' else None),
      attendance_rows = (\<lambda>u. Some []),
      profile_row = (\<lambda>u. Some \<lparr>full_name = ''Una'', email = ''una@example.org'',
                                department = None\<rparr>),
      today_iso = ''2026-01-22'',
      LOVABLE_API_KEY = Some ''gateway-key'',
      upstream = (\<lambda>ms. Inr \<lparr>up_status = 200, up_body = ''data: [DONE]''\<rparr>)\<rparr>"

text \<open>The same invocation answered by the service with status 503.\<close>

definition env_upstream_503 :: gateway_env where
  "env_upstream_503 =
     env_no_records\<lparr>upstream := (\<lambda>ms. Inr \<lparr>up_status = 503, up_body = ''overloaded''\<rparr>)\<rparr>"

text \<open>
  The event of the chat-completion stream that carries the token \<open>Hello\<close>: its text, cut
  in two inside the token, and the value \<open>JSON.parse\<close> returns for it. \<open>parse_hello\<close> is
  \<open>JSON.parse\<close> on that text and on \<open>null\<close>, and a syntax error elsewhere.
\<close>

definition hello_text :: string where
  "hello_text = ''{\"choices\":[{\"delta\":{\"content\":\"Hello\"}}]}''"

definition hello_chunk1 :: string where
  "hello_chunk1 = ''data: {\"choices\":[{\"delta\":{\"content\":\"Hel''"

definition hello_chunk2 :: string where
  "hello_chunk2 = ''lo\"}}]}'' @ newline"

definition hello_event :: json where
  "hello_event =
     JObject [(''choices'',
       JArray [JObject [(''delta'', JObject [(''content'', JString ''Hello'')])]])]"

definition parse_hello :: "string \<Rightarrow> json option" where
  "parse_hello s =
     (if s = hello_text then Some hello_event else if s = ''null'' then Some JNull else None)"

definition hello_line :: string where
  "hello_line = ''data: '' @ hello_text"

text \<open>A data line whose payload \<open>JSON.parse\<close> rejects.\<close>

definition unparsable_line :: string where
  "unparsable_line = ''data: {oops''"

section \<open>Check-in, check-out and the work duration\<close>

lemma insert_attendance_Inr:
  "insert_attendance db uid r = Inr (db', data) \<Longrightarrow>
     data = r \<and> db' = db\<lparr>attendance := attendance db @ [r]\<rparr>"
  by (auto simp: insert_attendance_def split: if_splits)

text \<open>
  Claim C1. A check-in that creates a record gives it the status \<open>Present\<close> when the
  local hour is below 9 and \<open>Late\<close> when it is 9 or more; the record is the one appended
  to the table and shown on the page. A signed-in user with no record for the day does
  create one.
\<close>

theorem handleCheckIn_status_by_hour:
  "(handleCheckIn now new_id (db, st) = ((db', st'), Some (Check_in_successful s)) \<longrightarrow>
      (\<exists>r. attendance db' = attendance db @ [r] \<and> todayAttendance st' = Some r \<and>
           check_in r = Some (getTime now) \<and> check_out r = None \<and> status r = s \<and>
           (getHours now < 9 \<longrightarrow> status r = Present) \<and>
           (9 \<le> getHours now \<longrightarrow> status r = Late))) \<and>
   (user st = Some uid \<and>
    \<not> list_ex (\<lambda>x. row_id x = new_id) (attendance db) \<and>
    \<not> list_ex (\<lambda>x. user_id x = uid \<and> date x = format_ymd now) (attendance db) \<longrightarrow>
      (\<exists>db' st'. handleCheckIn now new_id (db, st) =
          ((db', st'), Some (Check_in_successful (if getHours now < 9 then Present else Late)))))"
proof (intro conjI impI)
  assume ok: "handleCheckIn now new_id (db, st) = ((db', st'), Some (Check_in_successful s))"
  then obtain uid where u: "user st = Some uid"
    by (cases "user st") (auto simp: handleCheckIn_def)
  let ?r = "\<lparr>row_id = new_id, user_id = uid, date = format_ymd now,
              check_in = Some (getTime now), check_out = None,
              status = check_in_status now, row_notes = notes_or_null (notes_input st)\<rparr>"
  from ok u obtain d where ins: "insert_attendance db uid ?r = Inr (db', d)"
    and st': "st' = st\<lparr>todayAttendance := Some d, isSubmitting := False\<rparr>"
    and s: "s = check_in_status now"
    by (auto simp: handleCheckIn_def Let_def split: sum.splits)
  from insert_attendance_Inr [OF ins] have d: "d = ?r"
    and db': "db' = db\<lparr>attendance := attendance db @ [?r]\<rparr>" by simp_all
  show "\<exists>r. attendance db' = attendance db @ [r] \<and> todayAttendance st' = Some r \<and>
           check_in r = Some (getTime now) \<and> check_out r = None \<and> status r = s \<and>
           (getHours now < 9 \<longrightarrow> status r = Present) \<and>
           (9 \<le> getHours now \<longrightarrow> status r = Late)"
    by (rule exI [of _ ?r]) (simp add: db' st' d s check_in_status_def)
next
  assume pre: "user st = Some uid \<and>
    \<not> list_ex (\<lambda>x. row_id x = new_id) (attendance db) \<and>
    \<not> list_ex (\<lambda>x. user_id x = uid \<and> date x = format_ymd now) (attendance db)"
  then show "\<exists>db' st'. handleCheckIn now new_id (db, st) =
          ((db', st'), Some (Check_in_successful (if getHours now < 9 then Present else Late)))"
    by (simp add: handleCheckIn_def insert_attendance_def Let_def check_in_status_def)
qed

theorem handleCheckIn_status_by_hour_witness:
  "(\<exists>db' st' r. handleCheckIn now8 ''r1'' (db_empty, st_unmarked) =
        ((db', st'), Some (Check_in_successful Present)) \<and>
      todayAttendance st' = Some r \<and> status r = Present) \<and>
   (\<exists>db' st' r. handleCheckIn now9 ''r1'' (db_empty, st_unmarked) =
        ((db', st'), Some (Check_in_successful Late)) \<and>
      todayAttendance st' = Some r \<and> status r = Late)"
proof -
  have pre: "user st_unmarked = Some ''u1'' \<and>
      \<not> list_ex (\<lambda>x. row_id x = ''r1'') (attendance db_empty) \<and>
      \<not> list_ex (\<lambda>x. user_id x = ''u1'' \<and> date x = format_ymd n) (attendance db_empty)" for n
    by (simp add: st_unmarked_def db_empty_def)
  have h8: "getHours now8 < 9" and h9: "9 \<le> getHours now9"
    by (simp_all add: now8_def now9_def)
  have "\<exists>db' st'. handleCheckIn now8 ''r1'' (db_empty, st_unmarked) =
      ((db', st'), Some (Check_in_successful (if getHours now8 < 9 then Present else Late)))"
    using handleCheckIn_status_by_hour [where now = now8 and new_id = "''r1''" and db = db_empty
        and st = st_unmarked and uid = "''u1''", THEN conjunct2] pre [of now8]
    by blast
  with h8 obtain d8 s8 where r8: "handleCheckIn now8 ''r1'' (db_empty, st_unmarked) =
      ((d8, s8), Some (Check_in_successful Present))"
    by auto
  from handleCheckIn_status_by_hour
    [where now = now8 and new_id = "''r1''" and db = db_empty and st = st_unmarked
       and db' = d8 and st' = s8 and s = Present, THEN conjunct1] r8 h8
  have 1: "\<exists>r. todayAttendance s8 = Some r \<and> status r = Present" by blast
  have "\<exists>db' st'. handleCheckIn now9 ''r1'' (db_empty, st_unmarked) =
      ((db', st'), Some (Check_in_successful (if getHours now9 < 9 then Present else Late)))"
    using handleCheckIn_status_by_hour [where now = now9 and new_id = "''r1''" and db = db_empty
        and st = st_unmarked and uid = "''u1''", THEN conjunct2] pre [of now9]
    by blast
  with h9 obtain d9 s9 where r9: "handleCheckIn now9 ''r1'' (db_empty, st_unmarked) =
      ((d9, s9), Some (Check_in_successful Late))"
    by auto
  from handleCheckIn_status_by_hour
    [where now = now9 and new_id = "''r1''" and db = db_empty and st = st_unmarked
       and db' = d9 and st' = s9 and s = Late, THEN conjunct1] r9 h9
  have 2: "\<exists>r. todayAttendance s9 = Some r \<and> status r = Late" by blast
  from r8 1 r9 2 show ?thesis by blast
qed

lemma update_check_out_single:
  assumes "filter (update_visible db uid rid) (attendance db) = [x]"
  shows "update_check_out db uid rid t n =
     Inr (db\<lparr>attendance := map (\<lambda>y. if update_visible db uid rid y
                                        then y\<lparr>check_out := Some t, row_notes := n\<rparr> else y)
                                 (attendance db)\<rparr>,
          x\<lparr>check_out := Some t, row_notes := n\<rparr>)"
  using assms by (simp add: update_check_out_def)

lemma update_check_out_none:
  assumes "filter (update_visible db uid rid) (attendance db) = []"
  shows "update_check_out db uid rid t n = Inl No_single_row"
  using assms by (simp add: update_check_out_def)

text \<open>
  Claim C2 on the calls the page can make: \<open>handleCheckOut\<close> is the handler of the
  check-out button, which the page offers while a record is loaded whose \<open>check_out\<close>
  is empty. Such a call never ends silently: it reports success, or it reports a failure
  and leaves the table as it was. When the table holds no row of the loaded id that the
  user may update, \<open>single()\<close> fails and the call reports that failure. When it holds
  one, the call writes the new time into \<open>check_out\<close> and reports success, whatever the
  row held there: the update carries no condition on \<open>check_out\<close>, so a row that was
  checked out since the page loaded it (in another tab, say) loses its check-out time to
  the new one.
\<close>

theorem handleCheckOut_behaviour:
  "(action_buttons st = Check_out_button \<longrightarrow>
      snd (handleCheckOut now (db, st)) = Some Check_out_successful \<or>
      (\<exists>e. handleCheckOut now (db, st) =
             ((db, st\<lparr>isSubmitting := False\<rparr>), Some (Check_out_failed e)))) \<and>
   (action_buttons st = Check_out_button \<and> todayAttendance st = Some r \<and> user st = Some uid \<and>
    filter (update_visible db uid (row_id r)) (attendance db) = [] \<longrightarrow>
      handleCheckOut now (db, st) =
        ((db, st\<lparr>isSubmitting := False\<rparr>), Some (Check_out_failed No_single_row))) \<and>
   (action_buttons st = Check_out_button \<and> todayAttendance st = Some r \<and> user st = Some uid \<and>
    filter (update_visible db uid (row_id r)) (attendance db) = [x] \<longrightarrow>
      handleCheckOut now (db, st) =
        ((db\<lparr>attendance :=
               map (\<lambda>y. if update_visible db uid (row_id r) y
                        then y\<lparr>check_out := Some (getTime now),
                               row_notes := notes_or_null (notes_input st)\<rparr>
                        else y)
                 (attendance db)\<rparr>,
          st\<lparr>todayAttendance :=
                Some (x\<lparr>check_out := Some (getTime now),
                         row_notes := notes_or_null (notes_input st)\<rparr>),
              isSubmitting := False\<rparr>),
         Some Check_out_successful) \<and>
      x\<lparr>check_out := Some (getTime now), row_notes := notes_or_null (notes_input st)\<rparr>
        \<in> set (attendance (fst (fst (handleCheckOut now (db, st))))) \<and>
      (\<forall>t. check_out x = Some t \<and> t \<noteq> getTime now \<longrightarrow>
           x \<notin> set (attendance (fst (fst (handleCheckOut now (db, st)))))))"
proof (intro conjI impI)
  assume b: "action_buttons st = Check_out_button"
  then obtain r where r: "todayAttendance st = Some r"
    by (auto simp: action_buttons_def split: option.splits)
  show "snd (handleCheckOut now (db, st)) = Some Check_out_successful \<or>
      (\<exists>e. handleCheckOut now (db, st) =
             ((db, st\<lparr>isSubmitting := False\<rparr>), Some (Check_out_failed e)))"
    using r by (auto simp: handleCheckOut_def Let_def split: option.splits sum.splits)
next
  assume h: "action_buttons st = Check_out_button \<and> todayAttendance st = Some r \<and>
    user st = Some uid \<and> filter (update_visible db uid (row_id r)) (attendance db) = []"
  then show "handleCheckOut now (db, st) =
        ((db, st\<lparr>isSubmitting := False\<rparr>), Some (Check_out_failed No_single_row))"
    using update_check_out_none [of db uid "row_id r"] by (simp add: handleCheckOut_def Let_def)
next
  assume h: "action_buttons st = Check_out_button \<and> todayAttendance st = Some r \<and>
    user st = Some uid \<and> filter (update_visible db uid (row_id r)) (attendance db) = [x]"
  let ?x' = "x\<lparr>check_out := Some (getTime now), row_notes := notes_or_null (notes_input st)\<rparr>"
  let ?upd = "\<lambda>y. if update_visible db uid (row_id r) y
                  then y\<lparr>check_out := Some (getTime now), row_notes := notes_or_null (notes_input st)\<rparr>
                  else y"
  let ?db' = "db\<lparr>attendance := map ?upd (attendance db)\<rparr>"
  from h have f: "filter (update_visible db uid (row_id r)) (attendance db) = [x]" by simp
  then have "x \<in> set (filter (update_visible db uid (row_id r)) (attendance db))" by simp
  then have xin: "x \<in> set (attendance db)" and vis: "update_visible db uid (row_id r) x"
    by simp_all
  show run: "handleCheckOut now (db, st) =
      ((?db', st\<lparr>todayAttendance := Some ?x', isSubmitting := False\<rparr>), Some Check_out_successful)"
    using h update_check_out_single [OF f] by (simp add: handleCheckOut_def Let_def)
  have r2: "fst (fst (handleCheckOut now (db, st))) = ?db'" unfolding run by simp
  have "?x' \<in> set (attendance ?db')"
    using xin vis by (auto simp: image_iff intro!: bexI [of _ x])
  then show "?x' \<in> set (attendance (fst (fst (handleCheckOut now (db, st)))))"
    unfolding r2 .
  have gone: "x \<notin> set (attendance ?db')" if t: "check_out x = Some t \<and> t \<noteq> getTime now" for t
  proof
    assume "x \<in> set (attendance ?db')"
    then obtain y where y: "y \<in> set (attendance db)" "x = ?upd y" by auto
    show False
    proof (cases "update_visible db uid (row_id r) y")
      case True
      with y(2) have "x = y\<lparr>check_out := Some (getTime now),
                         row_notes := notes_or_null (notes_input st)\<rparr>"
        by simp
      then have "check_out x = Some (getTime now)" by simp
      with t show False by auto
    next
      case False
      with y(2) have "x = y" by simp
      with vis False show False by simp
    qed
  qed
  then show "\<forall>t. check_out x = Some t \<and> t \<noteq> getTime now \<longrightarrow>
           x \<notin> set (attendance (fst (fst (handleCheckOut now (db, st)))))"
    unfolding r2 by blast
qed

theorem handleCheckOut_behaviour_witness:
  "action_buttons st_in = Check_out_button \<and>
   check_out row_out = Some (getTime now17) \<and>
   handleCheckOut now18 (db_out, st_in) =
     ((db_empty\<lparr>attendance := [row_out\<lparr>check_out := Some (getTime now18)\<rparr>]\<rparr>,
       st_unmarked\<lparr>todayAttendance := Some (row_out\<lparr>check_out := Some (getTime now18)\<rparr>)\<rparr>),
      Some Check_out_successful) \<and>
   row_out \<notin> set (attendance (fst (fst (handleCheckOut now18 (db_out, st_in))))) \<and>
   handleCheckOut now17 (db_empty, st_in) =
     ((db_empty, st_in), Some (Check_out_failed No_single_row))"
proof -
  have b: "action_buttons st_in = Check_out_button"
    by (simp add: action_buttons_def st_in_def st_unmarked_def row_in_def)
  have s: "todayAttendance st_in = Some row_in" "user st_in = Some ''u1''"
    "notes_input st_in = []" "st_in\<lparr>isSubmitting := False\<rparr> = st_in"
    by (simp_all add: st_in_def st_unmarked_def)
  have f: "filter (update_visible db_out ''u1'' (row_id row_in)) (attendance db_out) = [row_out]"
    by (simp add: update_visible_def db_out_def row_out_def row_in_def db_empty_def)
  have e: "filter (update_visible db_empty ''u1'' (row_id row_in)) (attendance db_empty) = []"
    by (simp add: db_empty_def)
  have c: "check_out row_out = Some (getTime now17)" "getTime now17 \<noteq> getTime now18"
    by (simp_all add: row_out_def now17_def now18_def)
  note t = handleCheckOut_behaviour [where st = st_in and r = row_in and uid = "''u1''"
      and db = db_out and x = row_out and now = now18]
  from t b s f have 1: "handleCheckOut now18 (db_out, st_in) =
      ((db_out\<lparr>attendance :=
               map (\<lambda>y. if update_visible db_out ''u1'' (row_id row_in) y
                        then y\<lparr>check_out := Some (getTime now18),
                               row_notes := notes_or_null []\<rparr>
                        else y)
                 (attendance db_out)\<rparr>,
          st_in\<lparr>todayAttendance :=
                Some (row_out\<lparr>check_out := Some (getTime now18),
                         row_notes := notes_or_null []\<rparr>),
              isSubmitting := False\<rparr>),
         Some Check_out_successful)"
    by simp
  have 1: "handleCheckOut now18 (db_out, st_in) =
     ((db_empty\<lparr>attendance := [row_out\<lparr>check_out := Some (getTime now18)\<rparr>]\<rparr>,
       st_unmarked\<lparr>todayAttendance := Some (row_out\<lparr>check_out := Some (getTime now18)\<rparr>)\<rparr>),
      Some Check_out_successful)"
    unfolding 1
    by (simp add: update_visible_def db_out_def row_out_def row_in_def db_empty_def st_in_def
        st_unmarked_def notes_or_null_def)
  from t b s f c have 2: "row_out \<notin> set (attendance (fst (fst (handleCheckOut now18 (db_out, st_in)))))"
    by blast
  from handleCheckOut_behaviour [where st = st_in and r = row_in and uid = "''u1''"
      and db = db_empty and now = now17] b s e
  have 3: "handleCheckOut now17 (db_empty, st_in) =
     ((db_empty, st_in), Some (Check_out_failed No_single_row))"
    by simp
  from b c(1) 1 2 3 show ?thesis by blast
qed

lemma js_rem_nonneg: "0 \<le> a \<Longrightarrow> 0 < b \<Longrightarrow> js_rem a b = a mod b"
  by (simp add: js_rem_def sgn_if)

lemma work_minutes_nonneg:
  "0 \<le> d \<Longrightarrow> work_minutes d = (d mod 3600000) div 60000"
  by (simp add: work_minutes_def js_rem_nonneg)

lemma hours_minutes_floor:
  fixes d :: int
  assumes "0 \<le> d"
  defines "h \<equiv> d div 3600000" and "m \<equiv> (d mod 3600000) div 60000"
  shows "0 \<le> h \<and> 0 \<le> m \<and> m < 60 \<and> h * 3600000 + m * 60000 \<le> d \<and>
         d < h * 3600000 + (m + 1) * 60000"
proof -
  have d: "d = h * 3600000 + d mod 3600000" by (simp add: h_def)
  have r: "d mod 3600000 = m * 60000 + (d mod 3600000) mod 60000" by (simp add: m_def)
  have b1: "0 \<le> d mod 3600000" "d mod 3600000 < 3600000" by simp_all
  have b2: "0 \<le> (d mod 3600000) mod 60000" "(d mod 3600000) mod 60000 < 60000" by simp_all
  have "0 \<le> h" using assms(1) d b1 by linarith
  moreover have "0 \<le> m" using r b1 b2 by linarith
  moreover have "m < 60" using r b1 b2 by linarith
  moreover have "h * 3600000 + m * 60000 \<le> d" using d r b2 by linarith
  moreover have "d < h * 3600000 + (m + 1) * 60000"
  proof -
    have "d < h * 3600000 + m * 60000 + 60000" using d r b2 by linarith
    then show ?thesis by (simp add: algebra_simps)
  qed
  ultimately show ?thesis by blast
qed

text \<open>
  Claim C7. \<open>calculateWorkHours\<close> is a function of the page state. It is \<open>null\<close> when no
  record is loaded or either timestamp is missing. With both there and the check-out
  not before the check-in, it is \<open>"<h>h <m>m"\<close> for the whole hours \<open>h\<close> of the difference
  and the whole minutes \<open>m\<close> of what remains: both rounded down, \<open>m\<close> below 60. From
  09:00:00 to 17:30:00 of one day it is \<open>"8h 30m"\<close>.
\<close>

theorem calculateWorkHours_spec:
  "(todayAttendance st = None \<longrightarrow> calculateWorkHours st = None) \<and>
   (todayAttendance st = Some r \<and> (check_in r = None \<or> check_out r = None) \<longrightarrow>
      calculateWorkHours st = None) \<and>
   (todayAttendance st = Some r \<and> check_in r = Some ci \<and> check_out r = Some co \<and> ci \<le> co \<longrightarrow>
      (\<exists>h m. calculateWorkHours st =
                 Some (string_of_int h @ ''h '' @ string_of_int m @ ''m'') \<and>
             h = (co - ci) div 3600000 \<and> m = ((co - ci) mod 3600000) div 60000 \<and>
             0 \<le> h \<and> 0 \<le> m \<and> m < 60 \<and>
             h * 3600000 + m * 60000 \<le> co - ci \<and>
             co - ci < h * 3600000 + (m + 1) * 60000)) \<and>
   (todayAttendance st = Some r \<and> check_in r = Some (day + 9 * 3600000) \<and>
    check_out r = Some (day + 17 * 3600000 + 30 * 60000) \<longrightarrow>
      calculateWorkHours st = Some ''8h 30m'')"
proof (intro conjI impI)
  show "calculateWorkHours st = None" if "todayAttendance st = None"
    using that by (simp add: calculateWorkHours_def)
  show "calculateWorkHours st = None"
    if "todayAttendance st = Some r \<and> (check_in r = None \<or> check_out r = None)"
    using that by (auto simp: calculateWorkHours_def split: option.splits)
  show "\<exists>h m. calculateWorkHours st =
                 Some (string_of_int h @ ''h '' @ string_of_int m @ ''m'') \<and>
             h = (co - ci) div 3600000 \<and> m = ((co - ci) mod 3600000) div 60000 \<and>
             0 \<le> h \<and> 0 \<le> m \<and> m < 60 \<and>
             h * 3600000 + m * 60000 \<le> co - ci \<and>
             co - ci < h * 3600000 + (m + 1) * 60000"
    if h: "todayAttendance st = Some r \<and> check_in r = Some ci \<and> check_out r = Some co \<and> ci \<le> co"
  proof -
    from h have d: "0 \<le> co - ci" by simp
    from h have "calculateWorkHours st =
        Some (string_of_int ((co - ci) div 3600000) @ ''h '' @
              string_of_int (((co - ci) mod 3600000) div 60000) @ ''m'')"
      using work_minutes_nonneg [OF d]
      by (simp add: calculateWorkHours_def work_hours_def Let_def)
    with hours_minutes_floor [OF d] show ?thesis by blast
  qed
  show "calculateWorkHours st = Some ''8h 30m''"
    if "todayAttendance st = Some r \<and> check_in r = Some (day + 9 * 3600000) \<and>
        check_out r = Some (day + 17 * 3600000 + 30 * 60000)"
    using that
    by (simp add: calculateWorkHours_def work_hours_def work_minutes_def js_rem_def
        string_of_int_def string_of_nat.simps digit_char_def)
qed

theorem calculateWorkHours_spec_witness:
  "calculateWorkHours st_out = Some ''8h 30m'' \<and>
   calculateWorkHours st_unmarked = None \<and>
   calculateWorkHours st_in = None \<and>
   (\<exists>h m. calculateWorkHours st_out = Some (string_of_int h @ ''h '' @ string_of_int m @ ''m'') \<and>
          h = 8 \<and> m = 30)"
  using calculateWorkHours_spec [where st = st_out and r = row_out and ci = 1769072400000
      and co = 1769103000000 and day = 1769040000000]
    calculateWorkHours_spec [where st = st_unmarked]
    calculateWorkHours_spec [where st = st_in and r = row_in]
  by (simp add: st_out_def st_in_def st_unmarked_def row_out_def row_in_def
      string_of_int_def string_of_nat.simps digit_char_def)
section \<open>The aggregations of the reports\<close>

subsection \<open>Counting is independent of the order\<close>

lemma count_filter_mset: "length (filter P xs) = size (filter_mset P (mset xs))"
  by (metis mset_filter size_mset)

lemma stats_mset: "mset xs = mset ys \<Longrightarrow> stats xs = stats ys"
  by (simp add: stats_def count_filter_mset)

lemma length_mset_eq: "mset xs = mset ys \<Longrightarrow> length xs = length ys"
  by (metis size_mset)

lemma attendanceRate_mset: "mset xs = mset ys \<Longrightarrow> attendanceRate xs = attendanceRate ys"
  using stats_mset [of xs ys] length_mset_eq [of xs ys] by (simp add: attendanceRate_def)

lemma pieData_mset: "mset xs = mset ys \<Longrightarrow> pieData xs = pieData ys"
  using stats_mset [of xs ys] by (simp add: pieData_def)

lemma dashboard_stats_mset: "mset xs = mset ys \<Longrightarrow> dashboard_stats xs = dashboard_stats ys"
  using length_mset_eq [of xs ys] by (simp add: dashboard_stats_def count_filter_mset)

subsection \<open>The weekly buckets as a map\<close>

lemma weeklyData_snoc: "weeklyData g (xs @ [r]) = weeks_step g (weeklyData g xs) r"
  by (simp add: weeklyData_def)

lemma map_of_update_key:
  "map_of (map (\<lambda>e. if fst e = k then (fst e, f (snd e)) else e) ws) k' =
     (if k' = k then map_option f (map_of ws k') else map_of ws k')"
  by (induction ws) auto

lemma map_of_weeks_step:
  "map_of (weeks_step g ws r) k =
     (if k = week_label g r
      then Some (count_status (status r) (case map_of ws k of None \<Rightarrow> zero_week | Some w \<Rightarrow> w))
      else map_of ws k)"
  by (auto simp: weeks_step_def Let_def map_of_update_key zero_week_def map_of_append
      map_add_def split: option.splits)

lemma keys_weeks_step:
  "map fst (weeks_step g ws r) =
     (if map_of ws (week_label g r) = None then map fst ws @ [week_label g r] else map fst ws)"
  by (auto simp: weeks_step_def Let_def comp_def intro!: map_idI)

lemma week_total_snoc:
  "week_total g (xs @ [r]) k =
     (if k = week_label g r then count_status (status r) (week_total g xs k) else week_total g xs k)"
  by (cases "status r") (auto simp: week_total_def count_status_def)

lemma week_total_none: "k \<notin> week_label g ` set xs \<Longrightarrow> week_total g xs k = zero_week"
  by (auto simp: week_total_def zero_week_def filter_empty_conv)

lemma map_of_weeklyData:
  "map_of (weeklyData g xs) k =
     (if k \<in> week_label g ` set xs then Some (week_total g xs k) else None)"
proof (induction xs rule: rev_induct)
  case Nil
  show ?case by (simp add: weeklyData_def)
next
  case (snoc r xs)
  show ?case
  proof (cases "k = week_label g r")
    case True
    then show ?thesis
      using snoc week_total_none [of k g xs]
      by (auto simp: weeklyData_snoc map_of_weeks_step week_total_snoc)
  next
    case False
    then show ?thesis
      using snoc by (auto simp: weeklyData_snoc map_of_weeks_step week_total_snoc)
  qed
qed

lemma distinct_weeklyData: "distinct (map fst (weeklyData g xs))"
proof (induction xs rule: rev_induct)
  case Nil
  show ?case by (simp add: weeklyData_def)
next
  case (snoc r xs)
  then show ?case
    by (auto simp: weeklyData_snoc keys_weeks_step map_of_eq_None_iff)
qed

lemma week_total_mset: "mset xs = mset ys \<Longrightarrow> week_total g xs k = week_total g ys k"
  by (simp add: week_total_def count_filter_mset)

lemma map_of_weeklyData_mset:
  assumes "mset xs = mset ys"
  shows "map_of (weeklyData g xs) = map_of (weeklyData g ys)"
proof
  fix k
  from assms have "set xs = set ys" by (rule mset_eq_setD)
  with week_total_mset [OF assms] show "map_of (weeklyData g xs) k = map_of (weeklyData g ys) k"
    by (simp add: map_of_weeklyData)
qed

lemma set_weeklyData_mset:
  assumes "mset xs = mset ys"
  shows "set (weeklyData g xs) = set (weeklyData g ys)"
proof -
  have "\<And>zs. set (weeklyData g zs) = {(k, v). map_of (weeklyData g zs) k = Some v}"
    using distinct_weeklyData by (auto simp: map_of_eq_Some_iff)
  then show ?thesis using map_of_weeklyData_mset [OF assms] by simp
qed

lemma mset_weeklyData_mset:
  assumes "mset xs = mset ys"
  shows "mset (weeklyData g xs) = mset (weeklyData g ys)"
proof -
  have "distinct (weeklyData g xs)" "distinct (weeklyData g ys)"
    using distinct_weeklyData distinct_map by blast+
  then show ?thesis
    using set_weeklyData_mset [OF assms, of g] set_eq_iff_mset_eq_distinct by blast
qed

lemma keys_weeklyData:
  "map fst (weeklyData g xs) = rev (remdups (rev (map (week_label g) xs)))"
proof (induction xs rule: rev_induct)
  case Nil
  show ?case by (simp add: weeklyData_def)
next
  case (snoc r xs)
  have "map_of (weeklyData g xs) (week_label g r) = None \<longleftrightarrow>
        week_label g r \<notin> set (map (week_label g) xs)"
    by (simp add: map_of_weeklyData)
  with snoc show ?case
    by (simp add: weeklyData_snoc keys_weeks_step)
qed

text \<open>The week number of a day of the month is the same in doubles and exactly.\<close>

lemma week_quotient_double:
  "d \<in> {1..31} \<Longrightarrow> \<lceil>js_divide (of_nat d) 7\<rceil> = \<lceil>(of_nat d :: real) / 7\<rceil>"
proof -
  assume "d \<in> {1..31}"
  then have "d = 1 \<or> d = 2 \<or> d = 3 \<or> d = 4 \<or> d = 5 \<or> d = 6 \<or> d = 7 \<or> d = 8 \<or> d = 9 \<or>
      d = 10 \<or> d = 11 \<or> d = 12 \<or> d = 13 \<or> d = 14 \<or> d = 15 \<or> d = 16 \<or> d = 17 \<or> d = 18 \<or>
      d = 19 \<or> d = 20 \<or> d = 21 \<or> d = 22 \<or> d = 23 \<or> d = 24 \<or> d = 25 \<or> d = 26 \<or> d = 27 \<or>
      d = 28 \<or> d = 29 \<or> d = 30 \<or> d = 31"
    by (simp only: atLeastAtMost_iff) arith
  then show ?thesis
    by (elim disjE)
      (simp_all add: js_divide_def double_of_def double_of_pos.simps round_half_even_def
        ceiling_def)
qed

lemma ceiling_div7: "\<lceil>(of_nat d :: real) / 7\<rceil> = int ((d + 6) div 7)"
proof -
  have "\<lceil>(of_nat d :: real) / 7\<rceil> = \<lceil>(of_int (int d) :: real) / of_int 7\<rceil>" by simp
  also have "\<dots> = - (- int d div 7)" by (rule ceiling_divide_eq_div)
  also have "\<dots> = int ((d + 6) div 7)" by (simp add: zdiv_int)
  finally show ?thesis .
qed

lemma week_label_div:
  "week_label g r = ''Week '' @ string_of_int (int ((g (date r) + 6) div 7))"
  by (simp add: week_label_def ceiling_div7)

lemma week_label_08: "week_label day_of_ymd (row_on ''2026-01-08'' s) = ''Week 2''"
  by (simp add: week_label_div day_of_ymd_def digit_value_def row_on_def
      string_of_int_def string_of_nat.simps digit_char_def)

lemma week_label_01: "week_label day_of_ymd (row_on ''2026-01-01'' s) = ''Week 1''"
  by (simp add: week_label_div day_of_ymd_def digit_value_def row_on_def
      string_of_int_def string_of_nat.simps digit_char_def)

lemma status_row_on: "status (row_on d s) = s"
  by (simp add: row_on_def)

text \<open>
  Claim C8, as the code has it. On two lists with the same records in any order,
  \<open>stats\<close>, \<open>pieData\<close>, the attendance rate of the report and the statistics of the
  dashboard are equal, and \<open>weeklyData\<close> holds the same weeks with the same counters:
  each week present in the records once, with the number of its present, late and absent
  records. The weeks are listed in the order in which they first occur in the input. On
  no records every count is 0 and there is no week.
\<close>

theorem aggregations_of_permutations:
  "(mset xs = mset ys \<longrightarrow>
      stats xs = stats ys \<and> pieData xs = pieData ys \<and>
      attendanceRate xs = attendanceRate ys \<and> dashboard_stats xs = dashboard_stats ys \<and>
      map_of (weeklyData g xs) = map_of (weeklyData g ys) \<and>
      mset (weeklyData g xs) = mset (weeklyData g ys)) \<and>
   map_of (weeklyData g xs) k =
     (if k \<in> week_label g ` set xs then Some (week_total g xs k) else None) \<and>
   map fst (weeklyData g xs) = rev (remdups (rev (map (week_label g) xs))) \<and>
   stats [] = \<lparr>present = 0, late = 0, absent = 0, half_day = 0, leave = 0\<rparr> \<and>
   pieData [] = [] \<and> attendanceRate [] = Rate_number 0 \<and>
   dashboardRate (dashboard_stats []) = 0 \<and> weeklyData g [] = []"
proof (intro conjI impI)
  assume p: "mset xs = mset ys"
  show "stats xs = stats ys" by (rule stats_mset [OF p])
  show "pieData xs = pieData ys" by (rule pieData_mset [OF p])
  show "attendanceRate xs = attendanceRate ys" by (rule attendanceRate_mset [OF p])
  show "dashboard_stats xs = dashboard_stats ys" by (rule dashboard_stats_mset [OF p])
  show "map_of (weeklyData g xs) = map_of (weeklyData g ys)"
    by (rule map_of_weeklyData_mset [OF p])
  show "mset (weeklyData g xs) = mset (weeklyData g ys)"
    by (rule mset_weeklyData_mset [OF p])
next
  show "map_of (weeklyData g xs) k =
     (if k \<in> week_label g ` set xs then Some (week_total g xs k) else None)"
    by (rule map_of_weeklyData)
  show "map fst (weeklyData g xs) = rev (remdups (rev (map (week_label g) xs)))"
    by (rule keys_weeklyData)
  show "stats [] = \<lparr>present = 0, late = 0, absent = 0, half_day = 0, leave = 0\<rparr>"
    by (simp add: stats_def)
  show "pieData [] = []" by (simp add: pieData_def stats_def)
  show "attendanceRate [] = Rate_number 0" by (simp add: attendanceRate_def)
  show "dashboardRate (dashboard_stats []) = 0" by (simp add: dashboard_stats_def)
  show "weeklyData g [] = []" by (simp add: weeklyData_def)
qed

theorem aggregations_of_permutations_witness:
  "stats [row_on ''2026-01-08'' Present, row_on ''2026-01-01'' Late] =
     stats [row_on ''2026-01-01'' Late, row_on ''2026-01-08'' Present] \<and>
   attendanceRate [row_on ''2026-01-08'' Present, row_on ''2026-01-01'' Late] =
     attendanceRate [row_on ''2026-01-01'' Late, row_on ''2026-01-08'' Present] \<and>
   mset (weeklyData day_of_ymd [row_on ''2026-01-08'' Present, row_on ''2026-01-01'' Late]) =
     mset (weeklyData day_of_ymd [row_on ''2026-01-01'' Late, row_on ''2026-01-08'' Present]) \<and>
   map fst (weeklyData day_of_ymd [row_on ''2026-01-08'' Present, row_on ''2026-01-01'' Late]) =
     [''Week 2'', ''Week 1'']"
proof -
  have p: "mset [row_on ''2026-01-08'' Present, row_on ''2026-01-01'' Late] =
           mset [row_on ''2026-01-01'' Late, row_on ''2026-01-08'' Present]"
    by simp
  note t = aggregations_of_permutations
    [where xs = "[row_on ''2026-01-08'' Present, row_on ''2026-01-01'' Late]"
       and ys = "[row_on ''2026-01-01'' Late, row_on ''2026-01-08'' Present]"
       and g = day_of_ymd]
  have "map fst (weeklyData day_of_ymd [row_on ''2026-01-08'' Present, row_on ''2026-01-01'' Late]) =
     [''Week 2'', ''Week 1'']"
    using t by (simp add: week_label_08 week_label_01)
  with t p show ?thesis by blast
qed

text \<open>
  The claim as the specification words it fails for \<open>weeklyData\<close>: the same two records
  in the two orders give the weeks in two orders.
\<close>

theorem weeklyData_order_counterexample:
  "mset [row_on ''2026-01-08'' Present, row_on ''2026-01-01'' Late] =
     mset [row_on ''2026-01-01'' Late, row_on ''2026-01-08'' Present] \<and>
   weeklyData day_of_ymd [row_on ''2026-01-08'' Present, row_on ''2026-01-01'' Late] =
     [(''Week 2'', \<lparr>week_present = 1, week_late = 0, week_absent = 0\<rparr>),
      (''Week 1'', \<lparr>week_present = 0, week_late = 1, week_absent = 0\<rparr>)] \<and>
   weeklyData day_of_ymd [row_on ''2026-01-01'' Late, row_on ''2026-01-08'' Present] =
     [(''Week 1'', \<lparr>week_present = 0, week_late = 1, week_absent = 0\<rparr>),
      (''Week 2'', \<lparr>week_present = 1, week_late = 0, week_absent = 0\<rparr>)] \<and>
   weeklyData day_of_ymd [row_on ''2026-01-08'' Present, row_on ''2026-01-01'' Late] \<noteq>
     weeklyData day_of_ymd [row_on ''2026-01-01'' Late, row_on ''2026-01-08'' Present]"
  by (simp add: weeklyData_def weeks_step_def week_label_08 week_label_01 count_status_def
      Let_def status_row_on)
subsection \<open>The attendance rate\<close>

lemma dashboard_counts:
  "presentDays (dashboard_stats rs) = present (stats rs) \<and>
   lateDays (dashboard_stats rs) = late (stats rs) \<and>
   absentDays (dashboard_stats rs) = absent (stats rs) \<and>
   totalDays (dashboard_stats rs) = length rs"
  by (simp add: dashboard_stats_def stats_def Let_def)

text \<open>Rounding to a double moves a value by at most the \<open>2^53\<close>-th part of it.\<close>

lemma round_half_even_error: "\<bar>of_int (round_half_even x) - x\<bar> \<le> 1 / 2"
proof -
  have "of_int \<lfloor>x\<rfloor> \<le> x" "x < of_int \<lfloor>x\<rfloor> + 1" by linarith+
  then show ?thesis by (auto simp: round_half_even_def Let_def)
qed

lemma scale_down:
  fixes d x :: real
  assumes "\<bar>d - x / 2\<bar> \<le> x / 2 / 2 ^ 53" and "y = 2 * d"
  shows "\<bar>y - x\<bar> \<le> x / 2 ^ 53"
proof -
  define c :: real where "c = x / 2 ^ 53"
  have "x / 2 / 2 ^ 53 = c / 2" by (simp add: c_def)
  with assms show ?thesis unfolding c_def [symmetric] by linarith
qed

lemma scale_up:
  fixes d x :: real
  assumes "\<bar>d - 2 * x\<bar> \<le> 2 * x / 2 ^ 53" and "y = d / 2"
  shows "\<bar>y - x\<bar> \<le> x / 2 ^ 53"
proof -
  define c :: real where "c = x / 2 ^ 53"
  have "2 * x / 2 ^ 53 = 2 * c" by (simp add: c_def)
  with assms show ?thesis unfolding c_def [symmetric] by linarith
qed

lemma double_of_pos_error: "0 < x \<Longrightarrow> \<bar>double_of_pos x - x\<bar> \<le> x / 2 ^ 53"
proof (induction x rule: double_of_pos.induct)
  case (1 x)
  show ?case
  proof (cases "2 ^ 53 \<le> x")
    case True
    with 1 have "\<bar>double_of_pos (x / 2) - x / 2\<bar> \<le> x / 2 / 2 ^ 53" by simp
    moreover from True 1 have "double_of_pos x = 2 * double_of_pos (x / 2)"
      by (subst double_of_pos.simps) simp
    ultimately show ?thesis by (rule scale_down)
  next
    case False
    show ?thesis
    proof (cases "x < 2 ^ 52")
      case True
      with False 1 have "\<bar>double_of_pos (2 * x) - 2 * x\<bar> \<le> 2 * x / 2 ^ 53" by simp
      moreover from True False 1 have "double_of_pos x = double_of_pos (2 * x) / 2"
        by (subst double_of_pos.simps) simp
      ultimately show ?thesis by (rule scale_up)
    next
      case b: False
      with False 1 have "double_of_pos x = of_int (round_half_even x)"
        by (subst double_of_pos.simps) simp
      moreover from b have "1 / 2 \<le> x / 2 ^ 53" by simp
      ultimately show ?thesis using round_half_even_error [of x] by linarith
    qed
  qed
qed

lemma double_of_error: "0 \<le> x \<Longrightarrow> \<bar>double_of x - x\<bar> \<le> x / 2 ^ 53"
proof (cases "x = 0")
  case True
  then show ?thesis by (simp add: double_of_def double_of_pos.simps)
next
  case False
  assume "0 \<le> x"
  with False have "0 < x" by simp
  then show ?thesis using double_of_pos_error [of x] by (simp add: double_of_def)
qed

lemma double_of_0: "double_of 0 = 0"
  by (simp add: double_of_def double_of_pos.simps)

lemma double_of_1: "double_of 1 = 1"
  by (simp add: double_of_def double_of_pos.simps round_half_even_def)

lemma double_of_100: "double_of 100 = 100"
  by (simp add: double_of_def double_of_pos.simps round_half_even_def)

lemma rate_error:
  fixes q :: real
  assumes "0 \<le> q"
  shows "\<bar>double_of (double_of q * 100) - q * 100\<bar> \<le> q * 100 / 2 ^ 51"
proof -
  define u where "u = q / 2 ^ 53"
  define d where "d = double_of q"
  have u0: "0 \<le> u" using assms by (simp add: u_def)
  have uq: "u \<le> q" using assms by (simp add: u_def field_simps)
  have 1: "\<bar>d - q\<bar> \<le> u" unfolding d_def u_def by (rule double_of_error [OF assms])
  with uq have d0: "0 \<le> d" and d2: "d \<le> 2 * q" by linarith+
  from d0 have "\<bar>double_of (d * 100) - d * 100\<bar> \<le> d * 100 / 2 ^ 53"
    by (intro double_of_error) simp
  moreover from d2 have "d * 100 / 2 ^ 53 \<le> 200 * u" by (simp add: u_def field_simps)
  ultimately have 2: "\<bar>double_of (d * 100) - d * 100\<bar> \<le> 200 * u" by linarith
  have "q * 100 / 2 ^ 51 = 400 * u" by (simp add: u_def)
  with 1 2 u0 show ?thesis unfolding d_def by linarith
qed

lemma present_late_le: "present (stats rs) + late (stats rs) \<le> length rs"
  by (induction rs) (auto simp: stats_def)

lemma dashboardRate_double:
  "rs \<noteq> [] \<Longrightarrow> dashboardRate (dashboard_stats rs) =
     double_of (double_of (of_nat (present (stats rs) + late (stats rs)) / of_nat (length rs)) * 100)"
  by (simp add: dashboard_stats_def stats_def js_multiply_def js_divide_def Let_def)

lemma attendanceRate_dashboardRate:
  "rs \<noteq> [] \<Longrightarrow> attendanceRate rs = Rate_text (toFixed1 (dashboardRate (dashboard_stats rs)))"
  by (simp add: attendanceRate_def dashboard_stats_def stats_def Let_def)

lemma toFixed1_nonneg:
  "0 \<le> x \<Longrightarrow> toFixed1 x =
     string_of_int (\<lfloor>x * 10 + 1 / 2\<rfloor> div 10) @ ''.'' @ string_of_int (\<lfloor>x * 10 + 1 / 2\<rfloor> mod 10)"
  by (simp add: toFixed1_def Let_def)

lemma nearest_tenth:
  fixes x :: real
  defines "n \<equiv> \<lfloor>x * 10 + 1 / 2\<rfloor>"
  shows "\<bar>of_int n / 10 - x\<bar> \<le> 1 / 20"
proof -
  have "of_int n \<le> x * 10 + 1 / 2" "x * 10 + 1 / 2 < of_int n + 1"
    unfolding n_def by linarith+
  then show ?thesis by linarith
qed

lemma div_pow_le: "0 \<le> y \<Longrightarrow> y / 2 ^ 51 \<le> (y :: real)"
  by (simp add: field_simps)

lemma dashboardRate_bounds:
  assumes "rs \<noteq> []"
  shows "0 \<le> dashboardRate (dashboard_stats rs)"
    and "dashboardRate (dashboard_stats rs) \<le> 100 + 100 / 2 ^ 51"
proof -
  define q :: real where
    "q = of_nat (present (stats rs) + late (stats rs)) / of_nat (length rs)"
  have d: "dashboardRate (dashboard_stats rs) = double_of (double_of q * 100)"
    unfolding q_def by (rule dashboardRate_double [OF assms])
  have q0: "0 \<le> q" unfolding q_def by simp
  have "real (present (stats rs) + late (stats rs)) \<le> real (length rs)"
    using present_late_le [of rs] by (simp only: of_nat_le_iff)
  with assms have q1: "q \<le> 1" unfolding q_def by (simp only: divide_le_eq_1) simp
  note e = rate_error [OF q0]
  from q0 have y0: "0 \<le> q * 100" by simp
  from q1 have y1: "q * 100 \<le> 100" by simp
  have u: "q * 100 / 2 ^ 51 \<le> q * 100" by (rule div_pow_le [OF y0])
  have v: "q * 100 / 2 ^ 51 \<le> 100 / 2 ^ 51" by (rule divide_right_mono [OF y1]) simp
  from e u show "0 \<le> dashboardRate (dashboard_stats rs)" unfolding d by linarith
  from e v y1 show "dashboardRate (dashboard_stats rs) \<le> 100 + 100 / 2 ^ 51"
    unfolding d by linarith
qed

text \<open>
  Claim C6, as the code has it. The attendance rate is the formula evaluated in double
  arithmetic: the number of present and late records divided by the number of records,
  rounded to a double, times 100, rounded again; it differs from the exact value by at
  most the \<open>2^51\<close>-th part of it, and it is \<open>0\<close> for no records. The dashboard holds this
  number. The report holds what \<open>toFixed(1)\<close> makes of it: a text with one digit after
  the point, from \<open>0.0\<close> to \<open>100.0\<close>, for the tenth nearest to that double; for no
  records it holds the number \<open>0\<close>. The rate is exactly 100 when every record is present
  or late, and exactly 0 when none is. Ten records of which seven are present, one late
  and two absent give \<open>80\<close> on the dashboard and \<open>"80.0"\<close> in the report.
\<close>

theorem attendanceRate_formula:
  "(rs = [] \<longrightarrow> dashboardRate (dashboard_stats rs) = 0 \<and> attendanceRate rs = Rate_number 0) \<and>
   (rs \<noteq> [] \<longrightarrow>
      dashboardRate (dashboard_stats rs) =
        double_of (double_of (of_nat (present (stats rs) + late (stats rs)) / of_nat (length rs)) * 100) \<and>
      \<bar>dashboardRate (dashboard_stats rs) -
         of_nat (present (stats rs) + late (stats rs)) / of_nat (length rs) * 100\<bar>
        \<le> of_nat (present (stats rs) + late (stats rs)) / of_nat (length rs) * 100 / 2 ^ 51 \<and>
      (\<exists>n. attendanceRate rs =
              Rate_text (string_of_int (n div 10) @ ''.'' @ string_of_int (n mod 10)) \<and>
           0 \<le> n \<and> n \<le> 1000 \<and>
           \<bar>of_int n / 10 - dashboardRate (dashboard_stats rs)\<bar> \<le> 1 / 20)) \<and>
   (rs \<noteq> [] \<and> present (stats rs) + late (stats rs) = length rs \<longrightarrow>
      dashboardRate (dashboard_stats rs) = 100 \<and> attendanceRate rs = Rate_text ''100.0'') \<and>
   (rs \<noteq> [] \<and> present (stats rs) + late (stats rs) = 0 \<longrightarrow>
      dashboardRate (dashboard_stats rs) = 0 \<and> attendanceRate rs = Rate_text ''0.0'') \<and>
   (length rs = 10 \<and> present (stats rs) = 7 \<and> late (stats rs) = 1 \<and> absent (stats rs) = 2 \<longrightarrow>
      dashboardRate (dashboard_stats rs) = 80 \<and> attendanceRate rs = Rate_text ''80.0'')"
proof (intro conjI impI)
  assume "rs = []"
  then show "dashboardRate (dashboard_stats rs) = 0" "attendanceRate rs = Rate_number 0"
    by (simp_all add: dashboard_stats_def attendanceRate_def)
next
  assume ne: "rs \<noteq> []"
  let ?q = "of_nat (present (stats rs) + late (stats rs)) / of_nat (length rs) :: real"
  let ?d = "dashboardRate (dashboard_stats rs)"
  show "?d = double_of (double_of ?q * 100)" by (rule dashboardRate_double [OF ne])
  have q0: "0 \<le> ?q" by simp
  show "\<bar>?d - ?q * 100\<bar> \<le> ?q * 100 / 2 ^ 51"
    unfolding dashboardRate_double [OF ne] by (rule rate_error [OF q0])
  let ?n = "\<lfloor>?d * 10 + 1 / 2\<rfloor>"
  note b = dashboardRate_bounds [OF ne]
  have n0: "0 \<le> ?n" using b(1) by simp
  have "(100 :: real) / 2 ^ 51 \<le> 1 / 100" by simp
  with b(2) have "?d * 10 + 1 / 2 < 1001" by linarith
  then have "?n < 1001" by (simp add: floor_less_iff)
  then have n1: "?n \<le> 1000" by simp
  have t: "attendanceRate rs =
      Rate_text (string_of_int (?n div 10) @ ''.'' @ string_of_int (?n mod 10))"
    unfolding attendanceRate_dashboardRate [OF ne] using toFixed1_nonneg [OF b(1)] by simp
  from t n0 n1 nearest_tenth [of ?d]
  show "\<exists>n. attendanceRate rs =
              Rate_text (string_of_int (n div 10) @ ''.'' @ string_of_int (n mod 10)) \<and>
           0 \<le> n \<and> n \<le> 1000 \<and> \<bar>of_int n / 10 - ?d\<bar> \<le> 1 / 20"
    by blast
next
  assume h: "rs \<noteq> [] \<and> present (stats rs) + late (stats rs) = length rs"
  then have d: "dashboardRate (dashboard_stats rs) = 100"
    using dashboardRate_double [of rs] by (simp add: double_of_1 double_of_100)
  then show "dashboardRate (dashboard_stats rs) = 100" .
  from h show "attendanceRate rs = Rate_text ''100.0''"
    unfolding attendanceRate_dashboardRate [of rs, OF h [THEN conjunct1]] d
    by (simp add: toFixed1_def Let_def string_of_int_def string_of_nat.simps digit_char_def)
next
  assume h: "rs \<noteq> [] \<and> present (stats rs) + late (stats rs) = 0"
  then have d: "dashboardRate (dashboard_stats rs) = 0"
    using dashboardRate_double [of rs] by (simp add: double_of_0)
  then show "dashboardRate (dashboard_stats rs) = 0" .
  from h show "attendanceRate rs = Rate_text ''0.0''"
    unfolding attendanceRate_dashboardRate [of rs, OF h [THEN conjunct1]] d
    by (simp add: toFixed1_def Let_def string_of_int_def string_of_nat.simps digit_char_def)
next
  assume h: "length rs = 10 \<and> present (stats rs) = 7 \<and> late (stats rs) = 1 \<and> absent (stats rs) = 2"
  then have ne: "rs \<noteq> []" by auto
  have e: "double_of (double_of (4 / 5) * 100) = 80"
    by (simp add: double_of_def double_of_pos.simps round_half_even_def)
  from h have d: "dashboardRate (dashboard_stats rs) = 80"
    unfolding dashboardRate_double [OF ne] using e by simp
  then show "dashboardRate (dashboard_stats rs) = 80" .
  show "attendanceRate rs = Rate_text ''80.0''"
    unfolding attendanceRate_dashboardRate [OF ne] d
    by (simp add: toFixed1_def Let_def string_of_int_def string_of_nat.simps digit_char_def)
qed

lemma stats_ten:
  "length ten_records = 10 \<and> present (stats ten_records) = 7 \<and> late (stats ten_records) = 1 \<and>
   absent (stats ten_records) = 2"
  by (simp add: ten_records_def stats_def row_on_def)

lemma stats_three:
  "length three_records = 3 \<and> present (stats three_records) = 1 \<and> late (stats three_records) = 0"
  by (simp add: three_records_def stats_def row_on_def)

lemma stats_twenty:
  "length twenty_records = 20 \<and> present (stats twenty_records) = 11 \<and>
   late (stats twenty_records) = 0"
  by (simp add: twenty_records_def stats_def row_on_def)

lemma rate_1_of_3:
  "double_of (double_of (1 / 3) * 100) = 2345624805922133 / 70368744177664"
  by (simp add: double_of_def double_of_pos.simps round_half_even_def)

lemma rate_11_of_20:
  "double_of (double_of (11 / 20) * 100) = 7740561859543041 / 140737488355328"
  by (simp add: double_of_def double_of_pos.simps round_half_even_def)

text \<open>
  The two roundings show in the report as well: of 80 records with 23 present the exact
  rate is \<open>28.75\<close>, which \<open>toFixed(1)\<close> would write \<open>28.8\<close>; the double the page computes
  lies below it and is written \<open>28.7\<close>.
\<close>

lemma rate_23_of_80:
  "js_multiply (js_divide 23 80) 100 = 8092405580431359 / 281474976710656 \<and>
   toFixed1 (js_multiply (js_divide 23 80) 100) = ''28.7'' \<and>
   toFixed1 (23 / 80 * 100) = ''28.8''"
  by (simp add: js_multiply_def js_divide_def double_of_def double_of_pos.simps round_half_even_def
      toFixed1_def Let_def string_of_int_def string_of_nat.simps digit_char_def)

theorem attendanceRate_formula_witness:
  "dashboardRate (dashboard_stats ten_records) = 80 \<and>
   attendanceRate ten_records = Rate_text ''80.0'' \<and>
   attendanceRate [] = Rate_number 0 \<and> dashboardRate (dashboard_stats []) = 0 \<and>
   \<bar>dashboardRate (dashboard_stats three_records) - 100 / 3\<bar> \<le> 100 / 3 / 2 ^ 51 \<and>
   (\<exists>n. attendanceRate three_records =
          Rate_text (string_of_int (n div 10) @ ''.'' @ string_of_int (n mod 10)) \<and>
        0 \<le> n \<and> n \<le> 1000 \<and>
        \<bar>of_int n / 10 - dashboardRate (dashboard_stats three_records)\<bar> \<le> 1 / 20)"
proof -
  from attendanceRate_formula [of ten_records] stats_ten
  have 1: "dashboardRate (dashboard_stats ten_records) = 80 \<and>
           attendanceRate ten_records = Rate_text ''80.0''"
    by blast
  from attendanceRate_formula [of "[]"]
  have 2: "attendanceRate [] = Rate_number 0 \<and> dashboardRate (dashboard_stats []) = 0"
    by simp
  have ne: "three_records \<noteq> []" by (simp add: three_records_def)
  have q: "of_nat (present (stats three_records) + late (stats three_records)) /
      of_nat (length three_records) * 100 = (100 / 3 :: real)"
    using stats_three by simp
  from attendanceRate_formula [of three_records] ne
  have 3: "\<bar>dashboardRate (dashboard_stats three_records) -
         of_nat (present (stats three_records) + late (stats three_records)) /
           of_nat (length three_records) * 100\<bar>
        \<le> of_nat (present (stats three_records) + late (stats three_records)) /
           of_nat (length three_records) * 100 / 2 ^ 51"
    and 4: "\<exists>n. attendanceRate three_records =
          Rate_text (string_of_int (n div 10) @ ''.'' @ string_of_int (n mod 10)) \<and>
        0 \<le> n \<and> n \<le> 1000 \<and>
        \<bar>of_int n / 10 - dashboardRate (dashboard_stats three_records)\<bar> \<le> 1 / 20"
    by blast+
  from 3 have 5: "\<bar>dashboardRate (dashboard_stats three_records) - 100 / 3\<bar> \<le> 100 / 3 / 2 ^ 51"
    unfolding q .
  from 1 2 5 4 show ?thesis by blast
qed

text \<open>
  The claim as the specification words it fails on both pages. Of three records with
  one present the exact rate is \<open>100 / 3\<close>; the dashboard holds the double
  \<open>33.33333333333333\<close> and the report the text \<open>"33.3"\<close>, which is what \<open>33.3\<close>
  itself is written as. Of twenty records with eleven
  present the exact rate is \<open>55\<close>, itself a double; the dashboard holds the next double
  above it, \<open>55.00000000000001\<close>, since the quotient \<open>11 / 20\<close> is rounded before it is
  multiplied.
\<close>

theorem attendanceRate_rounding_counterexample:
  "attendanceRate three_records = Rate_text ''33.3'' \<and>
   of_nat (present (stats three_records) + late (stats three_records)) /
     of_nat (length three_records) * 100 = (100 / 3 :: real) \<and>
   dashboardRate (dashboard_stats three_records) = 2345624805922133 / 70368744177664 \<and>
   dashboardRate (dashboard_stats three_records) \<noteq> 100 / 3 \<and>
   attendanceRate three_records \<noteq> Rate_number (100 / 3) \<and>
   attendanceRate three_records \<noteq> Rate_number (dashboardRate (dashboard_stats three_records)) \<and>
   toFixed1 (333 / 10) = ''33.3'' \<and> (333 / 10 :: real) \<noteq> 100 / 3 \<and>
   (333 / 10 :: real) \<noteq> 2345624805922133 / 70368744177664 \<and>
   of_nat (present (stats twenty_records) + late (stats twenty_records)) /
     of_nat (length twenty_records) * 100 = (55 :: real) \<and>
   dashboardRate (dashboard_stats twenty_records) = 7740561859543041 / 140737488355328 \<and>
   dashboardRate (dashboard_stats twenty_records) \<noteq> 55 \<and>
   attendanceRate twenty_records = Rate_text ''55.0''"
proof -
  have ne: "three_records \<noteq> []" "twenty_records \<noteq> []"
    by (simp_all add: three_records_def twenty_records_def)
  have d3: "dashboardRate (dashboard_stats three_records) = 2345624805922133 / 70368744177664"
    unfolding dashboardRate_double [OF ne(1)] using stats_three rate_1_of_3 by simp
  have d20: "dashboardRate (dashboard_stats twenty_records) = 7740561859543041 / 140737488355328"
    unfolding dashboardRate_double [OF ne(2)] using stats_twenty rate_11_of_20 by simp
  have t3: "attendanceRate three_records = Rate_text ''33.3''"
    unfolding attendanceRate_dashboardRate [OF ne(1)] d3
    by (simp add: toFixed1_def Let_def string_of_int_def string_of_nat.simps digit_char_def)
  have t20: "attendanceRate twenty_records = Rate_text ''55.0''"
    unfolding attendanceRate_dashboardRate [OF ne(2)] d20
    by (simp add: toFixed1_def Let_def string_of_int_def string_of_nat.simps digit_char_def)
  have q3: "of_nat (present (stats three_records) + late (stats three_records)) /
     of_nat (length three_records) * 100 = (100 / 3 :: real)"
    using stats_three by simp
  have q20: "of_nat (present (stats twenty_records) + late (stats twenty_records)) /
     of_nat (length twenty_records) * 100 = (55 :: real)"
    using stats_twenty by simp
  have n3: "(2345624805922133 / 70368744177664 :: real) \<noteq> 100 / 3" by simp
  have w3: "toFixed1 (333 / 10) = ''33.3'' \<and> (333 / 10 :: real) \<noteq> 100 / 3 \<and>
     (333 / 10 :: real) \<noteq> 2345624805922133 / 70368744177664"
    by (simp add: toFixed1_def Let_def string_of_int_def string_of_nat.simps digit_char_def)
  have n20: "(7740561859543041 / 140737488355328 :: real) \<noteq> 55" by simp
  from t3 q3 d3 n3 w3 q20 d20 n20 t20 show ?thesis by simp
qed
section \<open>The role change\<close>

lemma roles_after_delete:
  "has_role db caller Admin \<Longrightarrow> roles_of (delete_user_roles db caller userId) userId = []"
  by (simp add: roles_of_def delete_user_roles_def filter_empty_conv)

lemma roles_of_others_after_delete:
  "u \<noteq> userId \<Longrightarrow> roles_of (delete_user_roles db caller userId) u = roles_of db u"
  by (auto simp: roles_of_def delete_user_roles_def intro: filter_cong)

lemma has_role_after_delete:
  "has_role db caller Admin \<Longrightarrow>
     has_role (delete_user_roles db caller userId) caller Admin \<longleftrightarrow> caller \<noteq> userId"
  by (auto simp: has_role_def delete_user_roles_def list_ex_iff)

lemma handleRoleChange_failed:
  assumes "handleRoleChange caller userId newRole (db, ur) = ((db', ur'), Failed_to_update_role e)"
  shows "db' = delete_user_roles db caller userId \<and> ur' = ur \<and>
         insert_user_role (delete_user_roles db caller userId) caller userId newRole = Inl e"
  using assms by (auto simp: handleRoleChange_def Let_def split: sum.splits)

text \<open>
  Claim C10. A role change is two statements: the delete of every role row of the target
  user, then the insert of the new row. When an administrator's change ends in the
  failure toast, the insert has failed after the delete: the target user holds no role
  row, the other users' rows and the page's map are as before, and the table has changed
  if the user held a role. That happens whenever an administrator changes their own role
  (the insert is then rejected by the policy) or the role is no value of \<open>app_role\<close>;
  any other change by an administrator leaves the user with exactly the new role.
\<close>

theorem handleRoleChange_not_atomic:
  "(has_role db caller Admin \<and>
    handleRoleChange caller userId newRole (db, ur) = ((db', ur'), Failed_to_update_role e) \<longrightarrow>
      roles_of db' userId = [] \<and> ur' = ur \<and>
      (\<forall>u. u \<noteq> userId \<longrightarrow> roles_of db' u = roles_of db u) \<and>
      (roles_of db userId \<noteq> [] \<longrightarrow> db' \<noteq> db)) \<and>
   (has_role db caller Admin \<and> (caller = userId \<or> parse_app_role newRole = None) \<longrightarrow>
      (\<exists>e. handleRoleChange caller userId newRole (db, ur) =
              ((delete_user_roles db caller userId, ur), Failed_to_update_role e))) \<and>
   (has_role db caller Admin \<and> caller \<noteq> userId \<and> parse_app_role newRole = Some r \<longrightarrow>
      (\<exists>db'. handleRoleChange caller userId newRole (db, ur) =
               ((db', ur(userId \<mapsto> newRole)), Role_updated) \<and>
             roles_of db' userId = [\<lparr>role_user_id = userId, role = r\<rparr>]))"
proof (intro conjI impI allI)
  assume h: "has_role db caller Admin \<and>
    handleRoleChange caller userId newRole (db, ur) = ((db', ur'), Failed_to_update_role e)"
  then have db': "db' = delete_user_roles db caller userId" and ur': "ur' = ur"
    using handleRoleChange_failed by blast+
  from h show z: "roles_of db' userId = []" by (simp add: db' roles_after_delete)
  show "ur' = ur" by (rule ur')
  show "roles_of db' u = roles_of db u" if "u \<noteq> userId" for u
    using that by (simp add: db' roles_of_others_after_delete)
  show "db' \<noteq> db" if "roles_of db userId \<noteq> []"
    using that z by auto
next
  assume h: "has_role db caller Admin \<and> (caller = userId \<or> parse_app_role newRole = None)"
  then show "\<exists>e. handleRoleChange caller userId newRole (db, ur) =
              ((delete_user_roles db caller userId, ur), Failed_to_update_role e)"
    using has_role_after_delete [of db caller userId]
    by (auto simp: handleRoleChange_def insert_user_role_def Let_def split: option.splits)
next
  assume h: "has_role db caller Admin \<and> caller \<noteq> userId \<and> parse_app_role newRole = Some r"
  let ?db1 = "delete_user_roles db caller userId"
  let ?db2 = "?db1\<lparr>user_roles := user_roles ?db1 @ [\<lparr>role_user_id = userId, role = r\<rparr>]\<rparr>"
  from h have adm: "has_role ?db1 caller Admin" by (simp add: has_role_after_delete)
  from h have none: "roles_of ?db1 userId = []" by (simp add: roles_after_delete)
  then have nodup: "\<not> list_ex (\<lambda>x. role_user_id x = userId \<and> role x = r) (user_roles ?db1)"
    by (auto simp: roles_of_def list_ex_iff filter_empty_conv)
  from h adm nodup have ins: "insert_user_role ?db1 caller userId newRole = Inr ?db2"
    by (simp add: insert_user_role_def)
  have "roles_of ?db2 userId = [\<lparr>role_user_id = userId, role = r\<rparr>]"
    using none by (simp add: roles_of_def)
  with ins show "\<exists>db'. handleRoleChange caller userId newRole (db, ur) =
               ((db', ur(userId \<mapsto> newRole)), Role_updated) \<and>
             roles_of db' userId = [\<lparr>role_user_id = userId, role = r\<rparr>]"
    by (auto simp: handleRoleChange_def Let_def)
qed

theorem handleRoleChange_not_atomic_witness:
  "handleRoleChange ''a1'' ''a1'' ''user'' (db_roles, Map.empty) =
     ((db_roles\<lparr>user_roles := [\<lparr>role_user_id = ''u1'', role = User\<rparr>]\<rparr>, Map.empty),
      Failed_to_update_role Rls_violation) \<and>
   roles_of db_roles ''a1'' = [\<lparr>role_user_id = ''a1'', role = Admin\<rparr>] \<and>
   roles_of (fst (fst (handleRoleChange ''a1'' ''a1'' ''user'' (db_roles, Map.empty)))) ''a1'' = [] \<and>
   fst (fst (handleRoleChange ''a1'' ''a1'' ''user'' (db_roles, Map.empty))) \<noteq> db_roles \<and>
   (\<exists>db'. handleRoleChange ''a1'' ''u1'' ''admin'' (db_roles, Map.empty) =
       ((db', [''u1'' \<mapsto> ''admin'']), Role_updated) \<and>
     roles_of db' ''u1'' = [\<lparr>role_user_id = ''u1'', role = Admin\<rparr>])"
proof -
  have adm: "has_role db_roles ''a1'' Admin" by (simp add: has_role_def db_roles_def)
  have run: "handleRoleChange ''a1'' ''a1'' ''user'' (db_roles, Map.empty) =
     ((db_roles\<lparr>user_roles := [\<lparr>role_user_id = ''u1'', role = User\<rparr>]\<rparr>, Map.empty),
      Failed_to_update_role Rls_violation)"
    by (simp add: handleRoleChange_def delete_user_roles_def insert_user_role_def has_role_def
        parse_app_role_def db_roles_def Let_def)
  have before: "roles_of db_roles ''a1'' = [\<lparr>role_user_id = ''a1'', role = Admin\<rparr>]"
    by (simp add: roles_of_def db_roles_def)
  from handleRoleChange_not_atomic [where db = db_roles and caller = "''a1''" and userId = "''a1''"
      and newRole = "''user''" and ur = Map.empty
      and db' = "db_roles\<lparr>user_roles := [\<lparr>role_user_id = ''u1'', role = User\<rparr>]\<rparr>"
      and ur' = Map.empty and e = Rls_violation, THEN conjunct1] adm run before
  have after: "roles_of (db_roles\<lparr>user_roles := [\<lparr>role_user_id = ''u1'', role = User\<rparr>]\<rparr>) ''a1'' = [] \<and>
    db_roles\<lparr>user_roles := [\<lparr>role_user_id = ''u1'', role = User\<rparr>]\<rparr> \<noteq> db_roles"
    by simp
  have "parse_app_role ''admin'' = Some Admin" by (simp add: parse_app_role_def)
  with handleRoleChange_not_atomic [where db = db_roles and caller = "''a1''" and userId = "''u1''"
      and newRole = "''admin''" and ur = Map.empty and r = Admin, THEN conjunct2, THEN conjunct2] adm
  have ok: "\<exists>db'. handleRoleChange ''a1'' ''u1'' ''admin'' (db_roles, Map.empty) =
       ((db', [''u1'' \<mapsto> ''admin'']), Role_updated) \<and>
     roles_of db' ''u1'' = [\<lparr>role_user_id = ''u1'', role = Admin\<rparr>]"
    by simp
  from run before after ok show ?thesis by simp
qed

section \<open>The gateway\<close>

lemma serve_handler_reaches:
  "reaches_upstream env uid ms r \<Longrightarrow> serve_handler env = translate_upstream r"
  by (simp add: reaches_upstream_def serve_handler_def Let_def)

text \<open>
  Claim C5. To an upstream answer of status 429 the gateway answers with status 429,
  content type \<open>application/json\<close> and the error \<open>Rate limit exceeded\<close>; to 402 with
  status 402 and the error \<open>Payment required\<close>; to any other status outside 200-299 with
  status 500 and the error \<open>AI gateway error\<close>, and it logs the upstream status and
  body. This is the handler's answer whenever the invocation gets as far as the upstream
  answer, and what \<open>translate_upstream\<close> makes of the upstream answer alone. For no
  status outside 200-299 does the answer depend on the upstream body, nor is the body
  passed on.
\<close>

theorem upstream_status_translation:
  "(reaches_upstream env uid ms r \<and> up_status r = 429 \<longrightarrow>
      serve_handler env =
        (\<lparr>resp_status = 429, resp_content_type = Some ''application/json'',
          resp_body = Error_json ''Rate limit exceeded''\<rparr>, [])) \<and>
   (reaches_upstream env uid ms r \<and> up_status r = 402 \<longrightarrow>
      serve_handler env =
        (\<lparr>resp_status = 402, resp_content_type = Some ''application/json'',
          resp_body = Error_json ''Payment required''\<rparr>, [])) \<and>
   (reaches_upstream env uid ms r \<and> (up_status r < 200 \<or> 299 < up_status r) \<and>
    up_status r \<noteq> 429 \<and> up_status r \<noteq> 402 \<longrightarrow>
      serve_handler env =
        (\<lparr>resp_status = 500, resp_content_type = Some ''application/json'',
          resp_body = Error_json ''AI gateway error''\<rparr>,
         [AI_gateway_error (up_status r) (up_body r)])) \<and>
   (up_status r = 429 \<longrightarrow>
      translate_upstream r =
        (\<lparr>resp_status = 429, resp_content_type = Some ''application/json'',
          resp_body = Error_json ''Rate limit exceeded''\<rparr>, [])) \<and>
   (up_status r = 402 \<longrightarrow>
      translate_upstream r =
        (\<lparr>resp_status = 402, resp_content_type = Some ''application/json'',
          resp_body = Error_json ''Payment required''\<rparr>, [])) \<and>
   ((up_status r < 200 \<or> 299 < up_status r) \<and> up_status r \<noteq> 429 \<and> up_status r \<noteq> 402 \<longrightarrow>
      translate_upstream r =
        (\<lparr>resp_status = 500, resp_content_type = Some ''application/json'',
          resp_body = Error_json ''AI gateway error''\<rparr>,
         [AI_gateway_error (up_status r) (up_body r)])) \<and>
   (up_status r < 200 \<or> 299 < up_status r \<longrightarrow>
      fst (translate_upstream (r\<lparr>up_body := b\<rparr>)) = fst (translate_upstream r) \<and>
      resp_body (fst (translate_upstream r)) \<noteq> Stream_of (up_body r))"
proof -
  have 1: "up_status r = 429 \<longrightarrow>
      translate_upstream r =
        (\<lparr>resp_status = 429, resp_content_type = Some ''application/json'',
          resp_body = Error_json ''Rate limit exceeded''\<rparr>, [])"
    by (simp add: translate_upstream_def response_ok_def error_response_def)
  have 2: "up_status r = 402 \<longrightarrow>
      translate_upstream r =
        (\<lparr>resp_status = 402, resp_content_type = Some ''application/json'',
          resp_body = Error_json ''Payment required''\<rparr>, [])"
    by (simp add: translate_upstream_def response_ok_def error_response_def)
  have 3: "(up_status r < 200 \<or> 299 < up_status r) \<and> up_status r \<noteq> 429 \<and> up_status r \<noteq> 402 \<longrightarrow>
      translate_upstream r =
        (\<lparr>resp_status = 500, resp_content_type = Some ''application/json'',
          resp_body = Error_json ''AI gateway error''\<rparr>,
         [AI_gateway_error (up_status r) (up_body r)])"
    by (auto simp: translate_upstream_def response_ok_def error_response_def)
  have 4: "up_status r < 200 \<or> 299 < up_status r \<longrightarrow>
      fst (translate_upstream (r\<lparr>up_body := b\<rparr>)) = fst (translate_upstream r) \<and>
      resp_body (fst (translate_upstream r)) \<noteq> Stream_of (up_body r)"
    by (auto simp: translate_upstream_def response_ok_def error_response_def)
  have 5: "reaches_upstream env uid ms r \<longrightarrow> serve_handler env = translate_upstream r"
    by (simp add: serve_handler_reaches)
  from 1 2 3 4 5 show ?thesis by simp
qed

theorem upstream_status_translation_witness:
  "serve_handler env_upstream_503 =
     (\<lparr>resp_status = 500, resp_content_type = Some ''application/json'',
       resp_body = Error_json ''AI gateway error''\<rparr>,
      [AI_gateway_error 503 ''overloaded'']) \<and>
   serve_handler
     (env_no_records\<lparr>upstream := (\<lambda>ms. Inr \<lparr>up_status = 429, up_body = ''slow down''\<rparr>)\<rparr>) =
     (\<lparr>resp_status = 429, resp_content_type = Some ''application/json'',
       resp_body = Error_json ''Rate limit exceeded''\<rparr>, []) \<and>
   serve_handler
     (env_no_records\<lparr>upstream := (\<lambda>ms. Inr \<lparr>up_status = 402, up_body = ''pay''\<rparr>)\<rparr>) =
     (\<lparr>resp_status = 402, resp_content_type = Some ''application/json'',
       resp_body = Error_json ''Payment required''\<rparr>, []) \<and>
   fst (translate_upstream \<lparr>up_status = 503, up_body = ''overloaded''\<rparr>) =
     fst (translate_upstream \<lparr>up_status = 503, up_body = ''other''\<rparr>)"
proof -
  let ?ms = "[\<lparr>msg_role = ''user'', content = ''How often was I late?''\<rparr>]"
  let ?r = "\<lparr>up_status = 503, up_body = ''overloaded''\<rparr>"
  let ?r429 = "\<lparr>up_status = 429, up_body = ''slow down''\<rparr>"
  let ?r402 = "\<lparr>up_status = 402, up_body = ''pay''\<rparr>"
  let ?e429 = "env_no_records\<lparr>upstream := (\<lambda>ms. Inr ?r429)\<rparr>"
  let ?e402 = "env_no_records\<lparr>upstream := (\<lambda>ms. Inr ?r402)\<rparr>"
  have reach: "reaches_upstream env_upstream_503 ''u1'' ?ms ?r"
    "reaches_upstream ?e429 ''u1'' ?ms ?r429" "reaches_upstream ?e402 ''u1'' ?ms ?r402"
    by (simp_all add: reaches_upstream_def env_upstream_503_def env_no_records_def truthy_text_def
        createClient_def)
  from upstream_status_translation [where r = ?r and env = env_upstream_503 and uid = "''u1''"
      and ms = ?ms and b = "''other''"] reach(1)
  have 1: "serve_handler env_upstream_503 =
     (\<lparr>resp_status = 500, resp_content_type = Some ''application/json'',
       resp_body = Error_json ''AI gateway error''\<rparr>,
      [AI_gateway_error 503 ''overloaded''])"
    and 4: "fst (translate_upstream ?r) =
     fst (translate_upstream \<lparr>up_status = 503, up_body = ''other''\<rparr>)"
    by simp_all
  from upstream_status_translation [where r = ?r429 and env = ?e429 and uid = "''u1''"
      and ms = ?ms] reach(2)
  have 2: "serve_handler ?e429 =
     (\<lparr>resp_status = 429, resp_content_type = Some ''application/json'',
       resp_body = Error_json ''Rate limit exceeded''\<rparr>, [])" by simp
  from upstream_status_translation [where r = ?r402 and env = ?e402 and uid = "''u1''"
      and ms = ?ms] reach(3)
  have 3: "serve_handler ?e402 =
     (\<lparr>resp_status = 402, resp_content_type = Some ''application/json'',
       resp_body = Error_json ''Payment required''\<rparr>, [])" by simp
  from 1 2 3 4 show ?thesis by blast
qed

text \<open>
  Claim C3 at an invocation whose attendance query returns no rows. The request is not
  blocked: the answer is 200 with the upstream stream. The context text, though, is the
  heading of the record list with nothing under it; the placeholder \<open>No attendance
  records found.\<close> is chosen for \<open>null\<close> only, and an empty array is truthy.
\<close>

theorem empty_attendance_context:
  "attendance_rows env_no_records ''u1'' = Some [] \<and>
   attendanceContext (attendance_rows env_no_records ''u1'') =
     ''User's recent attendance records (last 100 days):'' @ newline \<and>
   attendanceContext (attendance_rows env_no_records ''u1'') \<noteq> ''No attendance records found.'' \<and>
   attendanceContext None = ''No attendance records found.'' \<and>
   serve_handler env_no_records =
     (\<lparr>resp_status = 200, resp_content_type = Some ''text/event-stream'',
       resp_body = Stream_of ''data: [DONE]''\<rparr>, [])"
  by (simp add: attendanceContext_def env_no_records_def serve_handler_def truthy_text_def
      createClient_def translate_upstream_def response_ok_def Let_def newline_def)

section \<open>The stream consumer\<close>

subsection \<open>Finding the newline\<close>

lemma indexOf_None_iff: "indexOf c s = None \<longleftrightarrow> c \<notin> set s"
  by (induction s) auto

lemma indexOf_first: "c \<notin> set l \<Longrightarrow> indexOf c (l @ c # r) = Some (length l)"
  by (induction l) auto

lemma newline_Cons: "l @ newline @ r = l @ CHR 0x0A # r"
  by (simp add: newline_def)

lemma first_line_split:
  "CHR 0x0A \<in> set s \<Longrightarrow> \<exists>l r. s = l @ newline @ r \<and> CHR 0x0A \<notin> set l"
  using split_list_first [of "CHR 0x0A" s] by (auto simp: newline_def)

lemma tail_of_rest:
  assumes "l @ c # r = pre @ tail" and "c \<notin> set tail"
  shows "\<exists>r'. r = r' @ tail"
proof -
  from assms(1) consider us where "pre = l @ us" "us @ tail = c # r"
    | us where "l = pre @ us" "tail = us @ c # r"
    by (auto simp: append_eq_append_conv2)
  then show ?thesis
  proof cases
    case 1
    with assms(2) show ?thesis by (cases us) auto
  next
    case 2
    with assms(2) show ?thesis by simp
  qed
qed

subsection \<open>One turn of the inner loop\<close>

lemma inner_loop_no_newline:
  "CHR 0x0A \<notin> set (textBuffer st) \<Longrightarrow> inner_loop p st = st"
  by (subst inner_loop.simps) (simp add: indexOf_None_iff [THEN iffD2])

lemma inner_loop_line:
  assumes "CHR 0x0A \<notin> set l" and "textBuffer st = l @ newline @ rest"
  shows "inner_loop p st =
     (case process_line p (strip_cr l) of
        Next_line \<Rightarrow> inner_loop p (st\<lparr>textBuffer := rest\<rparr>)
      | Append c \<Rightarrow> inner_loop p (append_content c (st\<lparr>textBuffer := rest\<rparr>))
      | Stream_done \<Rightarrow> st\<lparr>textBuffer := rest, streamDone := True\<rparr>
      | Push_back \<Rightarrow> st\<lparr>textBuffer := strip_cr l @ newline @ rest\<rparr>)"
proof -
  have i: "indexOf (CHR 0x0A) (textBuffer st) = Some (length l)"
    using assms by (simp add: newline_Cons indexOf_first)
  have t: "take (length l) (textBuffer st) = l" "drop (Suc (length l)) (textBuffer st) = rest"
    using assms(2) by (simp_all add: newline_def)
  show ?thesis
    by (subst inner_loop.simps) (simp add: i t Let_def split: line_step.splits)
qed

lemma textBuffer_append_content [simp]: "textBuffer (append_content c st) = textBuffer st"
  by (simp add: append_content_def Let_def)

lemma streamDone_append_content [simp]: "streamDone (append_content c st) = streamDone st"
  by (simp add: append_content_def Let_def)

text \<open>What is behind the last newline of the buffer stays at its end.\<close>

lemma inner_loop_keeps_tail:
  "CHR 0x0A \<notin> set tail \<Longrightarrow> textBuffer st = pre @ tail \<Longrightarrow>
     \<exists>pre'. textBuffer (inner_loop p st) = pre' @ tail"
proof (induction "length (textBuffer st)" arbitrary: st pre rule: less_induct)
  case less
  show ?case
  proof (cases "CHR 0x0A \<in> set (textBuffer st)")
    case False
    then have "inner_loop p st = st" by (simp add: inner_loop_no_newline)
    with less.prems(2) show ?thesis by simp
  next
    case True
    then obtain l r where s: "textBuffer st = l @ newline @ r" and nl: "CHR 0x0A \<notin> set l"
      using first_line_split by blast
    from s less.prems have "l @ CHR 0x0A # r = pre @ tail" by (simp add: newline_def)
    with less.prems(1) nl obtain r' where r: "r = r' @ tail"
      using tail_of_rest [of l "CHR 0x0A" r pre tail] by auto
    have shorter: "length r < length (textBuffer st)" by (simp add: s newline_def)
    have ih: "\<exists>pre'. textBuffer (inner_loop p st') = pre' @ tail"
      if "textBuffer st' = r" for st'
    proof (rule less.hyps)
      show "length (textBuffer st') < length (textBuffer st)" using that shorter by simp
      show "CHR 0x0A \<notin> set tail" by (rule less.prems(1))
      show "textBuffer st' = r' @ tail" using that r by simp
    qed
    note step = inner_loop_line [OF nl s, of p]
    show ?thesis
    proof (cases "process_line p (strip_cr l)")
      case Next_line
      with step have "inner_loop p st = inner_loop p (st\<lparr>textBuffer := r\<rparr>)" by simp
      with ih [of "st\<lparr>textBuffer := r\<rparr>"] show ?thesis by simp
    next
      case (Append c)
      with step have "inner_loop p st = inner_loop p (append_content c (st\<lparr>textBuffer := r\<rparr>))"
        by simp
      with ih [of "append_content c (st\<lparr>textBuffer := r\<rparr>)"] show ?thesis by simp
    next
      case Stream_done
      with step have "textBuffer (inner_loop p st) = r' @ tail" by (simp add: r)
      then show ?thesis by blast
    next
      case Push_back
      with step have "textBuffer (inner_loop p st) = (strip_cr l @ newline @ r') @ tail"
        by (simp add: r)
      then show ?thesis by blast
    qed
  qed
qed

subsection \<open>What a line is taken for\<close>

lemma dropWhile_Nil_iff: "dropWhile P xs = [] \<longleftrightarrow> (\<forall>x \<in> set xs. P x)"
  by (induction xs) auto

lemma trim_not_Nil: "c \<in> set s \<Longrightarrow> \<not> js_space c \<Longrightarrow> trim s \<noteq> []"
proof -
  assume c: "c \<in> set s" and n: "\<not> js_space c"
  then have "dropWhile js_space s \<noteq> []" by (auto simp: dropWhile_Nil_iff)
  then have "\<not> js_space (hd (dropWhile js_space s))"
    and "hd (dropWhile js_space s) \<in> set (rev (dropWhile js_space s))"
    by (simp_all add: hd_dropWhile)
  then have "dropWhile js_space (rev (dropWhile js_space s)) \<noteq> []"
    unfolding dropWhile_Nil_iff by blast
  then show ?thesis by (simp add: trim_def)
qed

lemma data_line_not_skipped:
  assumes "startsWith ''data: '' line"
  shows "\<not> startsWith '':'' line \<and> trim line \<noteq> []"
proof -
  from assms have "take (length ''data: '') line = ''data: ''"
    unfolding startsWith_def .
  then obtain x where l: "line = ''data: '' @ x"
    by (metis append_take_drop_id)
  have "\<not> js_space CHR ''d''" by (simp add: js_space_def)
  moreover have "CHR ''d'' \<in> set line" by (simp add: l)
  ultimately have "trim line \<noteq> []" by (rule trim_not_Nil [rotated])
  moreover have "\<not> startsWith '':'' line" by (simp add: startsWith_def l)
  ultimately show ?thesis by simp
qed

lemma process_line_data:
  "startsWith ''data: '' line \<Longrightarrow>
     process_line p line =
       (if trim (drop 6 line) = ''[DONE]'' then Stream_done
        else case p (trim (drop 6 line)) of
               None \<Rightarrow> Push_back
             | Some parsed \<Rightarrow>
                 (case delta_content parsed of
                    None \<Rightarrow> Push_back
                  | Some c \<Rightarrow> if js_truthy c then Append (the c) else Next_line))"
  using data_line_not_skipped [of line] by (simp add: process_line_def Let_def)

lemma process_line_not_data:
  "\<not> startsWith ''data: '' line \<Longrightarrow> process_line p line = Next_line"
  by (simp add: process_line_def)

lemma process_line_Stream_done_iff:
  "process_line p line = Stream_done \<longleftrightarrow>
     startsWith ''data: '' line \<and> trim (drop 6 line) = ''[DONE]''"
proof (cases "startsWith ''data: '' line")
  case True
  then show ?thesis
    by (simp add: process_line_data split: option.splits)
next
  case False
  then show ?thesis by (simp add: process_line_not_data)
qed

lemma delta_content_None_iff: "delta_content v = None \<longleftrightarrow> v = JNull"
  by (simp add: delta_content_def)

lemma process_line_Push_back_iff:
  "process_line p line = Push_back \<longleftrightarrow>
     startsWith ''data: '' line \<and> trim (drop 6 line) \<noteq> ''[DONE]'' \<and>
     (p (trim (drop 6 line)) = None \<or> p (trim (drop 6 line)) = Some JNull)"
proof (cases "startsWith ''data: '' line")
  case True
  then show ?thesis
    by (auto simp: process_line_data delta_content_def split: option.splits if_splits)
next
  case False
  then show ?thesis by (simp add: process_line_not_data)
qed

subsection \<open>The reads\<close>

lemma read_loop_done: "streamDone st \<Longrightarrow> read_loop p chunks st = st"
  by (cases chunks) simp_all

lemma read_loop_append_done:
  "streamDone (read_loop p cs st) \<Longrightarrow> read_loop p (cs @ later) st = read_loop p cs st"
proof (induction cs arbitrary: st)
  case Nil
  then show ?case by (simp add: read_loop_done)
next
  case (Cons v cs)
  show ?case
  proof (cases "streamDone st")
    case True
    then show ?thesis by simp
  next
    case False
    with Cons.prems
    have "streamDone (read_loop p cs (inner_loop p (st\<lparr>textBuffer := textBuffer st @ v\<rparr>)))"
      by simp
    from Cons.IH [OF this] False show ?thesis by simp
  qed
qed

lemma inner_loop_append_line:
  assumes "CHR 0x0A \<notin> set l" and "textBuffer st = l @ newline"
    and "process_line p (strip_cr l) = Append c"
  shows "inner_loop p st = append_content c (st\<lparr>textBuffer := []\<rparr>)"
proof -
  have "inner_loop p st = inner_loop p (append_content c (st\<lparr>textBuffer := []\<rparr>))"
    using inner_loop_line [OF assms(1), of st "[]" p] assms(2,3) by simp
  then show ?thesis by (simp add: inner_loop_no_newline)
qed

lemma split_line_chunks:
  assumes "c1 @ c2 = l @ newline" and "c2 \<noteq> []" and "CHR 0x0A \<notin> set l"
  shows "CHR 0x0A \<notin> set c1"
proof -
  from assms(1) have "butlast (c1 @ c2) = l" by (simp add: newline_def)
  with assms(2) have "l = c1 @ butlast c2" by (simp add: butlast_append)
  with assms(3) show ?thesis by simp
qed

lemma append_content_initial:
  "append_content c (initial_stream_state prev) =
     (initial_stream_state prev)
       \<lparr>assistantContent := js_to_string c,
        messages := prev @ [\<lparr>msg_role = ''assistant'', content = js_to_string c\<rparr>],
        updates := [js_to_string c]\<rparr>"
  by (simp add: append_content_def initial_stream_state_def replace_last_def Let_def)

lemma split_line_reassembled:
  assumes nl: "CHR 0x0A \<notin> set l" and split: "c1 @ c2 = l @ newline"
    and line: "process_line p (strip_cr l) = Append c"
  shows "read_loop p [c1, c2] (initial_stream_state prev) =
           append_content c (initial_stream_state prev)"
    and "c2 \<noteq> [] \<Longrightarrow> read_loop p [c1] (initial_stream_state prev) =
           (initial_stream_state prev)\<lparr>textBuffer := c1\<rparr>"
proof -
  let ?i = "initial_stream_state prev"
  have i: "textBuffer ?i = []" "\<not> streamDone ?i" "?i\<lparr>textBuffer := []\<rparr> = ?i"
    by (simp_all add: initial_stream_state_def)
  show one: "read_loop p [c1] ?i = ?i\<lparr>textBuffer := c1\<rparr>" if "c2 \<noteq> []"
    using split_line_chunks [OF split that nl] i by (simp add: inner_loop_no_newline)
  show "read_loop p [c1, c2] ?i = append_content c ?i"
  proof (cases "c2 = []")
    case True
    with split have c1: "c1 = l @ newline" by simp
    have a: "inner_loop p (?i\<lparr>textBuffer := c1\<rparr>) = append_content c ?i"
      using inner_loop_append_line [OF nl _ line, of "?i\<lparr>textBuffer := c1\<rparr>"] c1 i by simp
    have e: "(append_content c ?i)\<lparr>textBuffer := textBuffer (append_content c ?i) @ c2\<rparr> =
             append_content c ?i"
      using True by (simp add: append_content_initial i)
    have b: "inner_loop p ((append_content c ?i)
               \<lparr>textBuffer := textBuffer (append_content c ?i) @ c2\<rparr>) = append_content c ?i"
      unfolding e by (rule inner_loop_no_newline) (simp add: i)
    have "read_loop p [c1, c2] ?i =
            read_loop p [c2] (inner_loop p (?i\<lparr>textBuffer := textBuffer ?i @ c1\<rparr>))"
      using i by simp
    also have "\<dots> = read_loop p [c2] (append_content c ?i)" using a i by simp
    also have "\<dots> = inner_loop p ((append_content c ?i)
               \<lparr>textBuffer := textBuffer (append_content c ?i) @ c2\<rparr>)"
      using i by simp
    also have "\<dots> = append_content c ?i" by (rule b)
    finally show ?thesis .
  next
    case False
    have n1: "CHR 0x0A \<notin> set c1" by (rule split_line_chunks [OF split False nl])
    have a: "inner_loop p (?i\<lparr>textBuffer := c1\<rparr>) = ?i\<lparr>textBuffer := c1\<rparr>"
      by (rule inner_loop_no_newline) (simp add: n1)
    have b: "inner_loop p (?i\<lparr>textBuffer := c1 @ c2\<rparr>) = append_content c ?i"
      using inner_loop_append_line [OF nl _ line, of "?i\<lparr>textBuffer := c1 @ c2\<rparr>"] split i
      by simp
    show ?thesis using a b i by simp
  qed
qed

subsection \<open>A loop that is held\<close>

lemma held_back_line:
  "CHR 0x0A \<notin> set l \<Longrightarrow> textBuffer st = l @ newline @ rest \<Longrightarrow>
     held_back p st \<longleftrightarrow> process_line p (strip_cr l) = Push_back"
  by (simp add: held_back_def newline_def indexOf_first)

lemma held_back_no_newline: "CHR 0x0A \<notin> set (textBuffer st) \<Longrightarrow> \<not> held_back p st"
  by (simp add: held_back_def indexOf_None_iff [THEN iffD2])

lemma js_space_cr: "js_space (CHR 0x0D)"
  by (simp add: js_space_def)

lemma trim_snoc_space: "js_space c \<Longrightarrow> trim (s @ [c]) = trim s"
proof -
  assume c: "js_space c"
  show ?thesis
  proof (cases "\<forall>x \<in> set s. js_space x")
    case True
    then have a: "dropWhile js_space s = []" by simp
    from True c have b: "dropWhile js_space (s @ [c]) = []" by simp
    show ?thesis unfolding trim_def a b ..
  next
    case False
    then have "dropWhile js_space (s @ [c]) = dropWhile js_space s @ [c]"
      by (auto simp: dropWhile_append1)
    with c show ?thesis by (simp add: trim_def)
  qed
qed

lemma strip_cr_cases:
  "strip_cr s = s \<or> (\<exists>t. s = t @ [CHR 0x0D] \<and> strip_cr s = t)"
proof (cases "endsWith [CHR 0x0D] s")
  case False
  then show ?thesis by (simp add: strip_cr_def)
next
  case True
  then have "s \<noteq> []" and "drop (length s - 1) s = [CHR 0x0D]" by (auto simp: endsWith_def)
  then have "s = butlast s @ [CHR 0x0D]"
    by (metis append_take_drop_id butlast_conv_take)
  with True show ?thesis by (auto simp: strip_cr_def)
qed

lemma not_in_strip_cr: "c \<notin> set l \<Longrightarrow> c \<notin> set (strip_cr l)"
  by (auto simp: strip_cr_def dest: in_set_butlastD)

lemma data_line_strip_cr:
  assumes "startsWith ''data: '' s"
  shows "startsWith ''data: '' (strip_cr s) \<and> trim (drop 6 (strip_cr s)) = trim (drop 6 s)"
proof -
  from strip_cr_cases [of s] show ?thesis
  proof
    assume "strip_cr s = s"
    with assms show ?thesis by simp
  next
    assume "\<exists>t. s = t @ [CHR 0x0D] \<and> strip_cr s = t"
    then obtain t where s: "s = t @ [CHR 0x0D]" and t: "strip_cr s = t" by blast
    from assms have pfx: "take (length ''data: '') (t @ [CHR 0x0D]) = ''data: ''"
      unfolding startsWith_def s .
    have len: "length ''data: '' \<le> length t"
    proof (rule ccontr)
      assume "\<not> length ''data: '' \<le> length t"
      then have "take (length ''data: '') (t @ [CHR 0x0D]) = t @ [CHR 0x0D]" by simp
      with pfx have "last (t @ [CHR 0x0D]) = last ''data: ''" by simp
      then show False by simp
    qed
    from pfx len have p: "take (length ''data: '') t = ''data: ''" by simp
    have d: "drop 6 s = drop 6 t @ [CHR 0x0D]" using len by (simp add: s)
    show ?thesis
      using p by (simp add: t d trim_snoc_space js_space_cr startsWith_def)
  qed
qed

lemma Push_back_strip_cr:
  "process_line p s = Push_back \<Longrightarrow> process_line p (strip_cr s) = Push_back"
  using data_line_strip_cr [of s] by (simp add: process_line_Push_back_iff)

subsection \<open>More text behind the buffer\<close>

lemma inner_loop_more_text:
  assumes "\<not> streamDone st"
  shows "inner_loop p (st\<lparr>textBuffer := b @ y\<rparr>) =
     (let r = inner_loop p (st\<lparr>textBuffer := b\<rparr>) in
      if streamDone r \<or> CHR 0x0A \<in> set (textBuffer r)
      then r\<lparr>textBuffer := textBuffer r @ y\<rparr>
      else inner_loop p (r\<lparr>textBuffer := textBuffer r @ y\<rparr>))"
  using assms
proof (induction "length b" arbitrary: b st rule: less_induct)
  case less
  show ?case
  proof (cases "CHR 0x0A \<in> set b")
    case False
    then have "inner_loop p (st\<lparr>textBuffer := b\<rparr>) = st\<lparr>textBuffer := b\<rparr>"
      by (simp add: inner_loop_no_newline)
    with False less.prems show ?thesis by (simp add: Let_def)
  next
    case True
    then obtain l b' where b: "b = l @ newline @ b'" and nl: "CHR 0x0A \<notin> set l"
      using first_line_split by blast
    have shorter: "length b' < length b" by (simp add: b newline_def)
    note one = inner_loop_line [OF nl, of "st\<lparr>textBuffer := b\<rparr>" b' p]
    note two = inner_loop_line [OF nl, of "st\<lparr>textBuffer := b @ y\<rparr>" "b' @ y" p]
    show ?thesis
    proof (cases "process_line p (strip_cr l)")
      case Next_line
      with one two b have
        "inner_loop p (st\<lparr>textBuffer := b\<rparr>) = inner_loop p (st\<lparr>textBuffer := b'\<rparr>)"
        "inner_loop p (st\<lparr>textBuffer := b @ y\<rparr>) = inner_loop p (st\<lparr>textBuffer := b' @ y\<rparr>)"
        by simp_all
      with less.hyps [OF shorter less.prems] show ?thesis by simp
    next
      case (Append c)
      let ?st = "append_content c st"
      have e: "append_content c (st\<lparr>textBuffer := t\<rparr>) = ?st\<lparr>textBuffer := t\<rparr>" for t
        by (simp add: append_content_def Let_def)
      from Append one two b have
        "inner_loop p (st\<lparr>textBuffer := b\<rparr>) = inner_loop p (?st\<lparr>textBuffer := b'\<rparr>)"
        "inner_loop p (st\<lparr>textBuffer := b @ y\<rparr>) = inner_loop p (?st\<lparr>textBuffer := b' @ y\<rparr>)"
        by (simp_all add: e)
      moreover have "\<not> streamDone ?st" using less.prems by simp
      ultimately show ?thesis using less.hyps [OF shorter, of ?st] by simp
    next
      case Stream_done
      with one two b show ?thesis by (simp add: Let_def)
    next
      case Push_back
      with one two b less.prems show ?thesis by (simp add: Let_def newline_def)
    qed
  qed
qed

text \<open>A loop that ends with a newline in the buffer, and not by the terminator, is held.\<close>

lemma inner_loop_ends:
  assumes "\<not> streamDone st"
  shows "streamDone (inner_loop p st) \<or> CHR 0x0A \<notin> set (textBuffer (inner_loop p st)) \<or>
         held_back p (inner_loop p st)"
  using assms
proof (induction "length (textBuffer st)" arbitrary: st rule: less_induct)
  case less
  show ?case
  proof (cases "CHR 0x0A \<in> set (textBuffer st)")
    case False
    then show ?thesis by (simp add: inner_loop_no_newline)
  next
    case True
    then obtain l r where s: "textBuffer st = l @ newline @ r" and nl: "CHR 0x0A \<notin> set l"
      using first_line_split by blast
    have shorter: "length r < length (textBuffer st)" by (simp add: s newline_def)
    note step = inner_loop_line [OF nl s, of p]
    show ?thesis
    proof (cases "process_line p (strip_cr l)")
      case Next_line
      with step have "inner_loop p st = inner_loop p (st\<lparr>textBuffer := r\<rparr>)" by simp
      with less.hyps [of "st\<lparr>textBuffer := r\<rparr>"] shorter less.prems show ?thesis by simp
    next
      case (Append c)
      with step have "inner_loop p st = inner_loop p (append_content c (st\<lparr>textBuffer := r\<rparr>))"
        by simp
      with less.hyps [of "append_content c (st\<lparr>textBuffer := r\<rparr>)"] shorter less.prems
      show ?thesis by simp
    next
      case Stream_done
      with step show ?thesis by simp
    next
      case Push_back
      with step have e: "inner_loop p st = st\<lparr>textBuffer := strip_cr l @ newline @ r\<rparr>" by simp
      have n: "CHR 0x0A \<notin> set (strip_cr l)"
        using nl by (rule not_in_strip_cr)
      have "held_back p (st\<lparr>textBuffer := strip_cr l @ newline @ r\<rparr>)"
        using held_back_line [OF n, of "st\<lparr>textBuffer := strip_cr l @ newline @ r\<rparr>" r p]
          Push_back_strip_cr [OF Push_back] by simp
      with e show ?thesis by simp
    qed
  qed
qed

text \<open>A held loop stays held, whatever is read: the line is tried and put back again.\<close>

lemma held_back_inner_loop:
  assumes "held_back p st"
  shows "held_back p (inner_loop p (st\<lparr>textBuffer := textBuffer st @ v\<rparr>)) \<and>
         result_of (inner_loop p (st\<lparr>textBuffer := textBuffer st @ v\<rparr>)) = result_of st"
proof -
  from assms have "CHR 0x0A \<in> set (textBuffer st)"
    using held_back_no_newline by blast
  then obtain l r where s: "textBuffer st = l @ newline @ r" and nl: "CHR 0x0A \<notin> set l"
    using first_line_split by blast
  from assms have pb: "process_line p (strip_cr l) = Push_back"
    using held_back_line [OF nl s] by simp
  let ?st = "st\<lparr>textBuffer := textBuffer st @ v\<rparr>"
  have s': "textBuffer ?st = l @ newline @ (r @ v)" by (simp add: s)
  from inner_loop_line [OF nl s', of p] pb
  have e: "inner_loop p ?st = st\<lparr>textBuffer := strip_cr l @ newline @ r @ v\<rparr>" by simp
  have n: "CHR 0x0A \<notin> set (strip_cr l)"
    using nl by (rule not_in_strip_cr)
  have "held_back p (st\<lparr>textBuffer := strip_cr l @ newline @ r @ v\<rparr>)"
    using held_back_line [OF n, of "st\<lparr>textBuffer := strip_cr l @ newline @ r @ v\<rparr>" "r @ v" p]
      Push_back_strip_cr [OF pb] by simp
  with e show ?thesis by (simp add: result_of_def)
qed

lemma held_back_read_loop:
  "held_back p st \<Longrightarrow> result_of (read_loop p cs st) = result_of st"
proof (induction cs arbitrary: st)
  case Nil
  show ?case by simp
next
  case (Cons v cs)
  show ?case
  proof (cases "streamDone st")
    case True
    then show ?thesis by simp
  next
    case False
    let ?r = "inner_loop p (st\<lparr>textBuffer := textBuffer st @ v\<rparr>)"
    from held_back_inner_loop [OF Cons.prems, of v]
    have h: "held_back p ?r" and r: "result_of ?r = result_of st" by simp_all
    from Cons.IH [OF h] r False show ?thesis by simp
  qed
qed

text \<open>How the stream is cut into chunks does not matter for what the reads leave behind.\<close>

lemma read_loop_chunks:
  assumes "\<not> streamDone st" and "CHR 0x0A \<notin> set (textBuffer st)"
  shows "result_of (read_loop p cs st) =
         result_of (inner_loop p (st\<lparr>textBuffer := textBuffer st @ concat cs\<rparr>))"
  using assms
proof (induction cs arbitrary: st)
  case Nil
  then show ?case by (simp add: inner_loop_no_newline)
next
  case (Cons v cs)
  let ?r = "inner_loop p (st\<lparr>textBuffer := textBuffer st @ v\<rparr>)"
  have all: "inner_loop p (st\<lparr>textBuffer := textBuffer st @ concat (v # cs)\<rparr>) =
     (if streamDone ?r \<or> CHR 0x0A \<in> set (textBuffer ?r)
      then ?r\<lparr>textBuffer := textBuffer ?r @ concat cs\<rparr>
      else inner_loop p (?r\<lparr>textBuffer := textBuffer ?r @ concat cs\<rparr>))"
    using inner_loop_more_text [OF Cons.prems(1), of p "textBuffer st @ v" "concat cs"]
    by (simp add: Let_def)
  have rl: "read_loop p (v # cs) st = read_loop p cs ?r" using Cons.prems(1) by simp
  have nd: "\<not> streamDone (st\<lparr>textBuffer := textBuffer st @ v\<rparr>)" using Cons.prems(1) by simp
  consider "streamDone ?r" | "\<not> streamDone ?r" "CHR 0x0A \<in> set (textBuffer ?r)"
    | "\<not> streamDone ?r" "CHR 0x0A \<notin> set (textBuffer ?r)"
    by blast
  then show ?case
  proof cases
    case 1
    then show ?thesis unfolding rl all by (simp add: read_loop_done result_of_def)
  next
    case 2
    with inner_loop_ends [OF nd, of p] have "held_back p ?r" by blast
    from held_back_read_loop [OF this, of cs] 2 show ?thesis
      unfolding rl all by (simp add: result_of_def)
  next
    case 3
    from Cons.IH [OF 3] 3 show ?thesis unfolding rl all by simp
  qed
qed

subsection \<open>A line cut in two\<close>

lemma hello_chunks: "hello_chunk1 @ hello_chunk2 = hello_line @ newline"
  by (simp add: hello_chunk1_def hello_chunk2_def hello_text_def hello_line_def)

lemma hello_line_no_newline: "CHR 0x0A \<notin> set hello_line"
  by (simp add: hello_text_def hello_line_def)

lemma hello_chunk2_not_Nil: "hello_chunk2 \<noteq> []"
  by (simp add: hello_chunk2_def)

lemma trim_hello_text: "trim hello_text = hello_text"
  by (simp add: trim_def hello_text_def js_space_def)

lemma delta_content_hello: "delta_content hello_event = Some (Some (JString ''Hello''))"
  by (simp add: delta_content_def hello_event_def get_prop_def get_index0_def opt_chain_def)

lemma process_hello_line:
  "p hello_text = Some hello_event \<Longrightarrow>
     process_line p (strip_cr hello_line) = Append (JString ''Hello'')"
proof -
  assume p: "p hello_text = Some hello_event"
  have s: "strip_cr hello_line = ''data: '' @ hello_text"
    by (simp add: strip_cr_def endsWith_def hello_text_def hello_line_def)
  have d: "startsWith ''data: '' (''data: '' @ hello_text)" by (simp add: startsWith_def)
  have n: "hello_text \<noteq> ''[DONE]''" by (simp add: hello_text_def)
  show ?thesis
    unfolding s using p n
    by (subst process_line_data [OF d]) (simp add: trim_hello_text delta_content_hello)
qed

lemma consume_chunks:
  "result_of (consume_stream p prev chunks) =
     result_of (inner_loop p ((initial_stream_state prev)\<lparr>textBuffer := concat chunks\<rparr>))"
proof -
  let ?i = "initial_stream_state prev"
  have i: "\<not> streamDone ?i" "CHR 0x0A \<notin> set (textBuffer ?i)" "textBuffer ?i = []"
    by (simp_all add: initial_stream_state_def)
  from read_loop_chunks [OF i(1,2), of p chunks] show ?thesis
    by (simp add: consume_stream_def i)
qed

text \<open>
  Claim C4. The inner loop takes a line for parsing only when its newline is in the
  buffer: a buffer without newline is left as it is, and whatever follows the last
  newline stays at the end of the buffer for the next read. A \<open>data:\<close> line whose payload
  is not \<open>[DONE]\<close> and on which \<open>JSON.parse\<close> throws (or which parses to \<open>null\<close>) is put
  back in front of the buffer with its newline, and the loop stops there with nothing
  else changed. So a line that carries content, cut in two chunks at any place, gives
  after both reads exactly that content, set once, and nothing after the first read
  alone; for the line of the token \<open>Hello\<close> cut inside the token the content is \<open>Hello\<close>.
  In general the content, the messages, the updates and the flag the reads leave do not
  depend on how the stream is cut into chunks: they are those of the inner loop run once
  on the whole text.
\<close>

theorem stream_lines_reassembled:
  "(CHR 0x0A \<notin> set (textBuffer st) \<longrightarrow> inner_loop p st = st) \<and>
   (CHR 0x0A \<notin> set tail \<and> textBuffer st = pre @ tail \<longrightarrow>
      (\<exists>pre'. textBuffer (inner_loop p st) = pre' @ tail)) \<and>
   (CHR 0x0A \<notin> set l \<and> textBuffer st = l @ newline @ rest \<and>
    startsWith ''data: '' (strip_cr l) \<and> trim (drop 6 (strip_cr l)) \<noteq> ''[DONE]'' \<and>
    (p (trim (drop 6 (strip_cr l))) = None \<or> p (trim (drop 6 (strip_cr l))) = Some JNull) \<longrightarrow>
      inner_loop p st = st\<lparr>textBuffer := strip_cr l @ newline @ rest\<rparr>) \<and>
   (CHR 0x0A \<notin> set l \<and> c1 @ c2 = l @ newline \<and> process_line p (strip_cr l) = Append c \<longrightarrow>
      read_loop p [c1, c2] (initial_stream_state prev) =
        (initial_stream_state prev)
          \<lparr>assistantContent := js_to_string c,
           messages := prev @ [\<lparr>msg_role = ''assistant'', content = js_to_string c\<rparr>],
           updates := [js_to_string c]\<rparr> \<and>
      (c2 \<noteq> [] \<longrightarrow>
         read_loop p [c1] (initial_stream_state prev) =
           (initial_stream_state prev)\<lparr>textBuffer := c1\<rparr>)) \<and>
   (p hello_text = Some hello_event \<longrightarrow>
      consume_stream p prev [hello_chunk1, hello_chunk2] =
        (initial_stream_state prev)
          \<lparr>assistantContent := ''Hello'',
           messages := prev @ [\<lparr>msg_role = ''assistant'', content = ''Hello''\<rparr>],
           updates := [''Hello'']\<rparr> \<and>
      consume_stream p prev [hello_chunk1] =
        (initial_stream_state prev)\<lparr>textBuffer := hello_chunk1\<rparr>) \<and>
   result_of (consume_stream p prev chunks) =
     result_of (inner_loop p ((initial_stream_state prev)\<lparr>textBuffer := concat chunks\<rparr>))"
proof (intro conjI impI)
  show "inner_loop p st = st" if "CHR 0x0A \<notin> set (textBuffer st)"
    using that by (rule inner_loop_no_newline)
  show "\<exists>pre'. textBuffer (inner_loop p st) = pre' @ tail"
    if "CHR 0x0A \<notin> set tail \<and> textBuffer st = pre @ tail"
    using that inner_loop_keeps_tail by blast
  show "inner_loop p st = st\<lparr>textBuffer := strip_cr l @ newline @ rest\<rparr>"
    if h: "CHR 0x0A \<notin> set l \<and> textBuffer st = l @ newline @ rest \<and>
       startsWith ''data: '' (strip_cr l) \<and> trim (drop 6 (strip_cr l)) \<noteq> ''[DONE]'' \<and>
       (p (trim (drop 6 (strip_cr l))) = None \<or> p (trim (drop 6 (strip_cr l))) = Some JNull)"
  proof -
    from h have "process_line p (strip_cr l) = Push_back"
      by (simp add: process_line_Push_back_iff)
    with h inner_loop_line [of l st rest p] show ?thesis by simp
  qed
next
  assume h: "CHR 0x0A \<notin> set l \<and> c1 @ c2 = l @ newline \<and> process_line p (strip_cr l) = Append c"
  then have nl: "CHR 0x0A \<notin> set l" and split: "c1 @ c2 = l @ newline"
    and line: "process_line p (strip_cr l) = Append c"
    by simp_all
  show "read_loop p [c1, c2] (initial_stream_state prev) =
        (initial_stream_state prev)
          \<lparr>assistantContent := js_to_string c,
           messages := prev @ [\<lparr>msg_role = ''assistant'', content = js_to_string c\<rparr>],
           updates := [js_to_string c]\<rparr>"
    using split_line_reassembled(1) [OF nl split line] by (simp add: append_content_initial)
  show "read_loop p [c1] (initial_stream_state prev) =
           (initial_stream_state prev)\<lparr>textBuffer := c1\<rparr>" if "c2 \<noteq> []"
    using split_line_reassembled(2) [OF nl split line that] .
next
  assume p: "p hello_text = Some hello_event"
  note line = process_hello_line [of p, OF p]
  show "consume_stream p prev [hello_chunk1, hello_chunk2] =
        (initial_stream_state prev)
          \<lparr>assistantContent := ''Hello'',
           messages := prev @ [\<lparr>msg_role = ''assistant'', content = ''Hello''\<rparr>],
           updates := [''Hello'']\<rparr>"
    unfolding consume_stream_def
    using split_line_reassembled(1) [OF hello_line_no_newline hello_chunks line]
    by (simp add: append_content_initial)
  show "consume_stream p prev [hello_chunk1] =
        (initial_stream_state prev)\<lparr>textBuffer := hello_chunk1\<rparr>"
    unfolding consume_stream_def
    using split_line_reassembled(2) [OF hello_line_no_newline hello_chunks line hello_chunk2_not_Nil] .
next
  show "result_of (consume_stream p prev chunks) =
     result_of (inner_loop p ((initial_stream_state prev)\<lparr>textBuffer := concat chunks\<rparr>))"
    by (rule consume_chunks)
qed

lemma parse_hello_text: "parse_hello hello_text = Some hello_event"
  by (simp add: parse_hello_def)

theorem stream_lines_reassembled_witness:
  "consume_stream parse_hello [] [hello_chunk1, hello_chunk2] =
     (initial_stream_state [])
       \<lparr>assistantContent := ''Hello'',
        messages := [\<lparr>msg_role = ''assistant'', content = ''Hello''\<rparr>],
        updates := [''Hello'']\<rparr> \<and>
   consume_stream parse_hello [] [hello_chunk1] =
     (initial_stream_state [])\<lparr>textBuffer := hello_chunk1\<rparr> \<and>
   read_loop parse_hello [hello_chunk1, hello_chunk2] (initial_stream_state []) =
     (initial_stream_state [])
       \<lparr>assistantContent := ''Hello'',
        messages := [\<lparr>msg_role = ''assistant'', content = ''Hello''\<rparr>],
        updates := [''Hello'']\<rparr> \<and>
   inner_loop parse_hello ((initial_stream_state [])\<lparr>textBuffer := hello_chunk1\<rparr>) =
     (initial_stream_state [])\<lparr>textBuffer := hello_chunk1\<rparr> \<and>
   (\<exists>pre'. textBuffer (inner_loop parse_hello
       ((initial_stream_state [])\<lparr>textBuffer := (hello_line @ newline) @ hello_chunk1\<rparr>)) =
       pre' @ hello_chunk1) \<and>
   inner_loop parse_hello ((initial_stream_state [])\<lparr>textBuffer := ''data: {oops'' @ newline @ ''x''\<rparr>) =
     (initial_stream_state [])\<lparr>textBuffer := ''data: {oops'' @ newline @ ''x''\<rparr>"
proof -
  let ?i = "initial_stream_state []"
  have n1: "CHR 0x0A \<notin> set hello_chunk1" by (simp add: hello_chunk1_def)
  have l: "process_line parse_hello (strip_cr hello_line) = Append (JString ''Hello'')"
    by (rule process_hello_line [of parse_hello, OF parse_hello_text])
  note t = stream_lines_reassembled [where p = parse_hello and prev = "[]"
      and st = "?i\<lparr>textBuffer := ''data: {oops'' @ newline @ ''x''\<rparr>"
      and l = "''data: {oops''" and rest = "''x''"]
  have a: "consume_stream parse_hello [] [hello_chunk1, hello_chunk2] =
        ?i\<lparr>assistantContent := ''Hello'',
           messages := [] @ [\<lparr>msg_role = ''assistant'', content = ''Hello''\<rparr>],
           updates := [''Hello'']\<rparr>"
    and b: "consume_stream parse_hello [] [hello_chunk1] = ?i\<lparr>textBuffer := hello_chunk1\<rparr>"
    using t parse_hello_text by blast+
  have pre: "CHR 0x0A \<notin> set ''data: {oops'' \<and>
     textBuffer (?i\<lparr>textBuffer := ''data: {oops'' @ newline @ ''x''\<rparr>) =
       ''data: {oops'' @ newline @ ''x'' \<and>
     startsWith ''data: '' (strip_cr ''data: {oops'') \<and>
     trim (drop 6 (strip_cr ''data: {oops'')) \<noteq> ''[DONE]'' \<and>
     (parse_hello (trim (drop 6 (strip_cr ''data: {oops''))) = None \<or>
      parse_hello (trim (drop 6 (strip_cr ''data: {oops''))) = Some JNull)"
    by (simp add: strip_cr_def endsWith_def startsWith_def trim_def js_space_def parse_hello_def
        hello_text_def)
  have c: "inner_loop parse_hello (?i\<lparr>textBuffer := ''data: {oops'' @ newline @ ''x''\<rparr>) =
     ?i\<lparr>textBuffer := strip_cr ''data: {oops'' @ newline @ ''x''\<rparr>"
    using t pre by simp
  have s: "strip_cr ''data: {oops'' = ''data: {oops''" by (simp add: strip_cr_def endsWith_def)
  have d: "read_loop parse_hello [hello_chunk1, hello_chunk2] ?i =
        ?i\<lparr>assistantContent := js_to_string (JString ''Hello''),
           messages := [] @ [\<lparr>msg_role = ''assistant'', content = js_to_string (JString ''Hello'')\<rparr>],
           updates := [js_to_string (JString ''Hello'')]\<rparr>"
    using stream_lines_reassembled [where p = parse_hello and prev = "[]" and l = hello_line
        and ?c1.0 = hello_chunk1 and ?c2.0 = hello_chunk2 and c = "JString ''Hello''"]
      hello_line_no_newline hello_chunks l
    by blast
  have e: "inner_loop parse_hello (?i\<lparr>textBuffer := hello_chunk1\<rparr>) =
     ?i\<lparr>textBuffer := hello_chunk1\<rparr>"
    using stream_lines_reassembled [where p = parse_hello
        and st = "?i\<lparr>textBuffer := hello_chunk1\<rparr>"] n1
    by simp
  have f: "\<exists>pre'. textBuffer (inner_loop parse_hello
       (?i\<lparr>textBuffer := (hello_line @ newline) @ hello_chunk1\<rparr>)) = pre' @ hello_chunk1"
    using stream_lines_reassembled [where p = parse_hello
        and st = "?i\<lparr>textBuffer := (hello_line @ newline) @ hello_chunk1\<rparr>"
        and tail = hello_chunk1 and pre = "hello_line @ newline"] n1
    by simp
  from a b c d e f show ?thesis by (simp add: s)
qed
subsection \<open>The terminator\<close>

lemma inner_loop_done_line:
  assumes "CHR 0x0A \<notin> set l" and "textBuffer st = l @ newline @ rest"
    and "startsWith ''data: '' (strip_cr l)" and "trim (drop 6 (strip_cr l)) = ''[DONE]''"
  shows "inner_loop p st = st\<lparr>textBuffer := rest, streamDone := True\<rparr>"
proof -
  from assms(3,4) have "process_line p (strip_cr l) = Stream_done"
    by (simp add: process_line_Stream_done_iff)
  with inner_loop_line [OF assms(1,2), of p] show ?thesis by simp
qed

lemma read_loop_done_line:
  assumes "\<not> streamDone st" and "CHR 0x0A \<notin> set l" and "textBuffer st @ v = l @ newline @ rest"
    and "startsWith ''data: '' (strip_cr l)" and "trim (drop 6 (strip_cr l)) = ''[DONE]''"
  shows "read_loop p (v # later) st = st\<lparr>textBuffer := rest, streamDone := True\<rparr>"
proof -
  have "inner_loop p (st\<lparr>textBuffer := textBuffer st @ v\<rparr>) =
          st\<lparr>textBuffer := rest, streamDone := True\<rparr>"
    using inner_loop_done_line [OF assms(2) _ assms(4,5), of "st\<lparr>textBuffer := textBuffer st @ v\<rparr>" rest p]
      assms(3) by simp
  with assms(1) show ?thesis by (simp add: read_loop_done)
qed

lemma done_line:
  "CHR 0x0A \<notin> set ''data: [DONE]'' \<and> startsWith ''data: '' (strip_cr ''data: [DONE]'') \<and>
   trim (drop 6 (strip_cr ''data: [DONE]'')) = ''[DONE]''"
  by (simp add: strip_cr_def endsWith_def startsWith_def trim_def js_space_def)

lemma inner_loop_hello_then_done:
  assumes p: "p hello_text = Some hello_event"
    and b: "textBuffer st = hello_chunk1 @ hello_chunk2 @ ''data: [DONE]'' @ newline @ rest"
  shows "inner_loop p st =
           (append_content (JString ''Hello'') st)\<lparr>textBuffer := rest, streamDone := True\<rparr>"
proof -
  have b': "textBuffer st = hello_line @ newline @ ''data: [DONE]'' @ newline @ rest"
    using b hello_chunks by (metis append.assoc)
  have "inner_loop p st =
          inner_loop p (append_content (JString ''Hello'')
            (st\<lparr>textBuffer := ''data: [DONE]'' @ newline @ rest\<rparr>))"
    using inner_loop_line [OF hello_line_no_newline b', of p] process_hello_line [of p, OF p]
    by simp
  also have "\<dots> = (append_content (JString ''Hello'')
            (st\<lparr>textBuffer := ''data: [DONE]'' @ newline @ rest\<rparr>))
            \<lparr>textBuffer := rest, streamDone := True\<rparr>"
    by (rule inner_loop_done_line [where l = "''data: [DONE]''"]) (use done_line in simp_all)
  also have "\<dots> = (append_content (JString ''Hello'') st)\<lparr>textBuffer := rest, streamDone := True\<rparr>"
    by (simp add: append_content_def Let_def)
  finally show ?thesis .
qed

lemma complete_lines_rest:
  assumes "b = [] \<or> last b = CHR 0x0A" and "b = l @ newline @ b'"
  shows "b' = [] \<or> last b' = CHR 0x0A"
  using assms by (cases "b' = []") (auto simp: newline_def)

lemma inner_loop_all_lines:
  assumes "b = [] \<or> last b = CHR 0x0A"
    and "CHR 0x0A \<notin> set (textBuffer (inner_loop p (st\<lparr>textBuffer := b\<rparr>)))"
  shows "textBuffer (inner_loop p (st\<lparr>textBuffer := b\<rparr>)) = []"
  using assms
proof (induction "length b" arbitrary: b st rule: less_induct)
  case less
  show ?case
  proof (cases "CHR 0x0A \<in> set b")
    case False
    with less.prems(1) have "b = []" using last_in_set [of b] by (cases "b = []") auto
    then show ?thesis by (simp add: inner_loop_no_newline)
  next
    case True
    then obtain l b' where b: "b = l @ newline @ b'" and nl: "CHR 0x0A \<notin> set l"
      using first_line_split by blast
    have shorter: "length b' < length b" by (simp add: b newline_def)
    have c': "b' = [] \<or> last b' = CHR 0x0A" by (rule complete_lines_rest [OF less.prems(1) b])
    note one = inner_loop_line [OF nl, of "st\<lparr>textBuffer := b\<rparr>" b' p]
    show ?thesis
    proof (cases "process_line p (strip_cr l)")
      case Next_line
      with one b have e: "inner_loop p (st\<lparr>textBuffer := b\<rparr>) = inner_loop p (st\<lparr>textBuffer := b'\<rparr>)"
        by simp
      from less.hyps [OF shorter c', of st] less.prems(2) show ?thesis unfolding e by simp
    next
      case (Append c)
      have a: "append_content c (st\<lparr>textBuffer := t\<rparr>) = (append_content c st)\<lparr>textBuffer := t\<rparr>" for t
        by (simp add: append_content_def Let_def)
      from Append one b have e: "inner_loop p (st\<lparr>textBuffer := b\<rparr>) =
          inner_loop p ((append_content c st)\<lparr>textBuffer := b'\<rparr>)"
        by (simp add: a)
      from less.hyps [OF shorter c', of "append_content c st"] less.prems(2)
      show ?thesis unfolding e by simp
    next
      case Stream_done
      with one b have e: "inner_loop p (st\<lparr>textBuffer := b\<rparr>) = st\<lparr>textBuffer := b', streamDone := True\<rparr>"
        by simp
      from less.prems(2) c' show ?thesis
        unfolding e using last_in_set [of b'] by (cases "b' = []") auto
    next
      case Push_back
      with one b have e: "inner_loop p (st\<lparr>textBuffer := b\<rparr>) =
          st\<lparr>textBuffer := strip_cr l @ newline @ b'\<rparr>"
        by simp
      from less.prems(2) show ?thesis unfolding e by (simp add: newline_def)
    qed
  qed
qed

text \<open>What precedes the terminator decides the outcome alone.\<close>

lemma inner_loop_up_to_done:
  assumes st: "\<not> streamDone st"
    and pre: "pre = [] \<or> last pre = CHR 0x0A"
    and nl: "CHR 0x0A \<notin> set l"
    and d: "startsWith ''data: '' (strip_cr l)" "trim (drop 6 (strip_cr l)) = ''[DONE]''"
  shows "inner_loop p (st\<lparr>textBuffer := pre @ l @ newline @ rest\<rparr>) =
     (let r = inner_loop p (st\<lparr>textBuffer := pre\<rparr>) in
      if streamDone r \<or> held_back p r
      then r\<lparr>textBuffer := textBuffer r @ l @ newline @ rest\<rparr>
      else r\<lparr>textBuffer := rest, streamDone := True\<rparr>)"
proof -
  let ?r = "inner_loop p (st\<lparr>textBuffer := pre\<rparr>)"
  let ?z = "l @ newline @ rest"
  note m = inner_loop_more_text [OF st, of p pre ?z]
  from st have st': "\<not> streamDone (st\<lparr>textBuffer := pre\<rparr>)" by simp
  note ends = inner_loop_ends [OF st', of p]
  show ?thesis
  proof (cases "streamDone ?r \<or> CHR 0x0A \<in> set (textBuffer ?r)")
    case True
    with ends have h: "streamDone ?r \<or> held_back p ?r" by blast
    from True m have "inner_loop p (st\<lparr>textBuffer := pre @ ?z\<rparr>) =
        ?r\<lparr>textBuffer := textBuffer ?r @ ?z\<rparr>"
      by (simp add: Let_def)
    with h show ?thesis by (simp add: Let_def)
  next
    case False
    then have nh: "\<not> streamDone ?r" "\<not> held_back p ?r"
      using held_back_no_newline [of ?r p] by blast+
    from False have e: "textBuffer ?r = []" using inner_loop_all_lines [OF pre] by blast
    from False m have "inner_loop p (st\<lparr>textBuffer := pre @ ?z\<rparr>) =
        inner_loop p (?r\<lparr>textBuffer := ?z\<rparr>)"
      by (simp add: Let_def e)
    also have "\<dots> = ?r\<lparr>textBuffer := rest, streamDone := True\<rparr>"
      using inner_loop_done_line [OF nl _ d, of "?r\<lparr>textBuffer := ?z\<rparr>" rest p] by simp
    finally show ?thesis using nh by (simp add: Let_def)
  qed
qed

lemma consume_up_to_done:
  assumes pre: "pre = [] \<or> last pre = CHR 0x0A"
    and cs: "concat chunks = pre @ l @ newline @ rest"
    and nl: "CHR 0x0A \<notin> set l"
    and d: "startsWith ''data: '' (strip_cr l)" "trim (drop 6 (strip_cr l)) = ''[DONE]''"
  shows "assistantContent (consume_stream p prev chunks) =
           assistantContent (inner_loop p ((initial_stream_state prev)\<lparr>textBuffer := pre\<rparr>))"
    and "messages (consume_stream p prev chunks) =
           messages (inner_loop p ((initial_stream_state prev)\<lparr>textBuffer := pre\<rparr>))"
    and "updates (consume_stream p prev chunks) =
           updates (inner_loop p ((initial_stream_state prev)\<lparr>textBuffer := pre\<rparr>))"
    and "streamDone (consume_stream p prev chunks) \<longleftrightarrow>
           streamDone (inner_loop p ((initial_stream_state prev)\<lparr>textBuffer := pre\<rparr>)) \<or>
           \<not> held_back p (inner_loop p ((initial_stream_state prev)\<lparr>textBuffer := pre\<rparr>))"
proof -
  let ?i = "initial_stream_state prev"
  let ?r = "inner_loop p (?i\<lparr>textBuffer := pre\<rparr>)"
  let ?c = "consume_stream p prev chunks"
  have i: "\<not> streamDone ?i" "CHR 0x0A \<notin> set (textBuffer ?i)" "textBuffer ?i = []"
    by (simp_all add: initial_stream_state_def)
  from read_loop_chunks [OF i(1,2), of p chunks]
  have r: "result_of ?c =
        result_of (inner_loop p (?i\<lparr>textBuffer := pre @ l @ newline @ rest\<rparr>))"
    by (simp add: consume_stream_def i cs)
  note u = inner_loop_up_to_done [OF i(1) pre nl d, of p rest]
  have "result_of ?c =
      (assistantContent ?r, messages ?r, updates ?r, streamDone ?r \<or> \<not> held_back p ?r)"
  proof (cases "streamDone ?r \<or> held_back p ?r")
    case True
    with u have "inner_loop p (?i\<lparr>textBuffer := pre @ l @ newline @ rest\<rparr>) =
        ?r\<lparr>textBuffer := textBuffer ?r @ l @ newline @ rest\<rparr>"
      by (simp add: Let_def)
    with r True show ?thesis by (auto simp: result_of_def)
  next
    case False
    with u have "inner_loop p (?i\<lparr>textBuffer := pre @ l @ newline @ rest\<rparr>) =
        ?r\<lparr>textBuffer := rest, streamDone := True\<rparr>"
      by (simp add: Let_def)
    with r False show ?thesis by (auto simp: result_of_def)
  qed
  then show "assistantContent ?c = assistantContent ?r" "messages ?c = messages ?r"
    "updates ?c = updates ?r" "streamDone ?c \<longleftrightarrow> streamDone ?r \<or> \<not> held_back p ?r"
    by (simp_all add: result_of_def)
qed

text \<open>The line \<open>data: {oops\<close> is put back at every read.\<close>

lemma unparsable_line:
  "CHR 0x0A \<notin> set unparsable_line"
  "strip_cr unparsable_line = unparsable_line"
  "process_line parse_hello (strip_cr unparsable_line) = Push_back"
proof -
  show "CHR 0x0A \<notin> set unparsable_line" by (simp add: unparsable_line_def)
  show s: "strip_cr unparsable_line = unparsable_line"
    by (simp add: unparsable_line_def strip_cr_def endsWith_def)
  have "startsWith ''data: '' unparsable_line \<and> trim (drop 6 unparsable_line) \<noteq> ''[DONE]'' \<and>
        parse_hello (trim (drop 6 unparsable_line)) = None"
    by (simp add: unparsable_line_def startsWith_def trim_def js_space_def parse_hello_def
        hello_text_def)
  then show "process_line parse_hello (strip_cr unparsable_line) = Push_back"
    unfolding s by (simp add: process_line_Push_back_iff)
qed

lemma inner_loop_unparsable:
  assumes "textBuffer st = unparsable_line @ newline @ rest"
  shows "inner_loop parse_hello st = st\<lparr>textBuffer := unparsable_line @ newline @ rest\<rparr>"
  using inner_loop_line [OF unparsable_line(1) assms, of parse_hello] unparsable_line(2,3)
  by simp

text \<open>
  Claim C9. When the inner loop comes to a line \<open>data: [DONE]\<close>, it sets \<open>streamDone\<close>
  and stops: the content, the messages and the updates are as they were, and what
  follows the line in the buffer is left there unread. The outer loop then ends: no
  later chunk is read, whatever the stream still holds. The end of the stream ends it as
  well. So the consumer of a stream that starts with the terminator appends nothing, and
  after the token \<open>Hello\<close> and the terminator the content is \<open>Hello\<close>, whatever events
  follow in the same chunk or in later ones. In general, for a stream whose text has a
  terminator line after complete lines, cut into chunks in any way, the content, the
  messages and the updates are those of the inner loop run on the lines before the
  terminator: nothing behind it contributes. The consumer ends at the terminator, with
  \<open>streamDone\<close> set, exactly when the loop comes to it, that is unless the lines before
  it leave a line put back (an earlier terminator apart). A data line that \<open>JSON.parse\<close>
  rejects is put back at every read: the terminator behind it is never processed,
  \<open>streamDone\<close> stays unset and the consumer reads on until the stream ends.
\<close>

theorem done_marker_ends_consumption:
  "(CHR 0x0A \<notin> set l \<and> textBuffer st = l @ newline @ rest \<and>
    startsWith ''data: '' (strip_cr l) \<and> trim (drop 6 (strip_cr l)) = ''[DONE]'' \<longrightarrow>
      inner_loop p st = st\<lparr>textBuffer := rest, streamDone := True\<rparr>) \<and>
   (\<not> streamDone st \<and> CHR 0x0A \<notin> set l \<and> textBuffer st @ v = l @ newline @ rest \<and>
    startsWith ''data: '' (strip_cr l) \<and> trim (drop 6 (strip_cr l)) = ''[DONE]'' \<longrightarrow>
      read_loop p (v # later) st = st\<lparr>textBuffer := rest, streamDone := True\<rparr>) \<and>
   (streamDone st \<longrightarrow> read_loop p chunks st = st) \<and>
   (streamDone (read_loop p cs st) \<longrightarrow> read_loop p (cs @ later) st = read_loop p cs st) \<and>
   read_loop p [] st = st \<and>
   consume_stream p prev ((''data: [DONE]'' @ newline @ rest) # later) =
     (initial_stream_state prev)\<lparr>textBuffer := rest, streamDone := True\<rparr> \<and>
   (p hello_text = Some hello_event \<longrightarrow>
      consume_stream p prev
        (hello_chunk1 # (hello_chunk2 @ ''data: [DONE]'' @ newline @ rest) # later) =
        (initial_stream_state prev)
          \<lparr>textBuffer := rest, assistantContent := ''Hello'', streamDone := True,
           messages := prev @ [\<lparr>msg_role = ''assistant'', content = ''Hello''\<rparr>],
           updates := [''Hello'']\<rparr>) \<and>
   ((before = [] \<or> last before = CHR 0x0A) \<and> concat chunks = before @ l @ newline @ rest \<and>
    CHR 0x0A \<notin> set l \<and>
    startsWith ''data: '' (strip_cr l) \<and> trim (drop 6 (strip_cr l)) = ''[DONE]'' \<longrightarrow>
      assistantContent (consume_stream p prev chunks) =
        assistantContent (inner_loop p ((initial_stream_state prev)\<lparr>textBuffer := before\<rparr>)) \<and>
      messages (consume_stream p prev chunks) =
        messages (inner_loop p ((initial_stream_state prev)\<lparr>textBuffer := before\<rparr>)) \<and>
      updates (consume_stream p prev chunks) =
        updates (inner_loop p ((initial_stream_state prev)\<lparr>textBuffer := before\<rparr>)) \<and>
      (streamDone (consume_stream p prev chunks) \<longleftrightarrow>
         streamDone (inner_loop p ((initial_stream_state prev)\<lparr>textBuffer := before\<rparr>)) \<or>
         \<not> held_back p (inner_loop p ((initial_stream_state prev)\<lparr>textBuffer := before\<rparr>))))"
proof (intro conjI impI)
  show "inner_loop p st = st\<lparr>textBuffer := rest, streamDone := True\<rparr>"
    if "CHR 0x0A \<notin> set l \<and> textBuffer st = l @ newline @ rest \<and>
        startsWith ''data: '' (strip_cr l) \<and> trim (drop 6 (strip_cr l)) = ''[DONE]''"
    using that inner_loop_done_line by blast
  show "read_loop p (v # later) st = st\<lparr>textBuffer := rest, streamDone := True\<rparr>"
    if "\<not> streamDone st \<and> CHR 0x0A \<notin> set l \<and> textBuffer st @ v = l @ newline @ rest \<and>
        startsWith ''data: '' (strip_cr l) \<and> trim (drop 6 (strip_cr l)) = ''[DONE]''"
    using that read_loop_done_line by blast
  show "read_loop p chunks st = st" if "streamDone st"
    using that by (rule read_loop_done)
  show "read_loop p (cs @ later) st = read_loop p cs st" if "streamDone (read_loop p cs st)"
    using that by (rule read_loop_append_done)
  show "read_loop p [] st = st" by simp
  let ?i = "initial_stream_state prev"
  have i: "textBuffer ?i = []" "\<not> streamDone ?i" by (simp_all add: initial_stream_state_def)
  show "consume_stream p prev ((''data: [DONE]'' @ newline @ rest) # later) =
     ?i\<lparr>textBuffer := rest, streamDone := True\<rparr>"
    unfolding consume_stream_def
    by (rule read_loop_done_line [where l = "''data: [DONE]''"]) (use done_line i in simp_all)
next
  assume p: "p hello_text = Some hello_event"
  let ?i = "initial_stream_state prev"
  let ?tail = "hello_chunk2 @ ''data: [DONE]'' @ newline @ rest"
  have i: "textBuffer ?i = []" "\<not> streamDone ?i" by (simp_all add: initial_stream_state_def)
  have n1: "CHR 0x0A \<notin> set hello_chunk1" by (simp add: hello_chunk1_def)
  have a: "inner_loop p (?i\<lparr>textBuffer := hello_chunk1\<rparr>) = ?i\<lparr>textBuffer := hello_chunk1\<rparr>"
    by (rule inner_loop_no_newline) (simp add: n1)
  have b: "inner_loop p (?i\<lparr>textBuffer := hello_chunk1 @ ?tail\<rparr>) =
      (append_content (JString ''Hello'') (?i\<lparr>textBuffer := hello_chunk1 @ ?tail\<rparr>))
        \<lparr>textBuffer := rest, streamDone := True\<rparr>"
    by (rule inner_loop_hello_then_done [of p, OF p]) simp
  have "read_loop p (hello_chunk1 # ?tail # later) ?i =
      read_loop p later (inner_loop p (?i\<lparr>textBuffer := hello_chunk1 @ ?tail\<rparr>))"
    using i a by simp
  also have "\<dots> = (append_content (JString ''Hello'') (?i\<lparr>textBuffer := hello_chunk1 @ ?tail\<rparr>))
        \<lparr>textBuffer := rest, streamDone := True\<rparr>"
    unfolding b by (rule read_loop_done) simp
  also have "\<dots> = ?i\<lparr>textBuffer := rest, assistantContent := ''Hello'', streamDone := True,
           messages := prev @ [\<lparr>msg_role = ''assistant'', content = ''Hello''\<rparr>],
           updates := [''Hello'']\<rparr>"
    by (simp add: append_content_def initial_stream_state_def replace_last_def Let_def)
  finally show "consume_stream p prev (hello_chunk1 # ?tail # later) =
        ?i\<lparr>textBuffer := rest, assistantContent := ''Hello'', streamDone := True,
           messages := prev @ [\<lparr>msg_role = ''assistant'', content = ''Hello''\<rparr>],
           updates := [''Hello'']\<rparr>"
    by (simp add: consume_stream_def)
next
  assume h: "(before = [] \<or> last before = CHR 0x0A) \<and>
    concat chunks = before @ l @ newline @ rest \<and> CHR 0x0A \<notin> set l \<and>
    startsWith ''data: '' (strip_cr l) \<and> trim (drop 6 (strip_cr l)) = ''[DONE]''"
  then have pre: "before = [] \<or> last before = CHR 0x0A"
    and cs: "concat chunks = before @ l @ newline @ rest"
    and nl: "CHR 0x0A \<notin> set l"
    and d: "startsWith ''data: '' (strip_cr l)" "trim (drop 6 (strip_cr l)) = ''[DONE]''"
    by blast+
  note u = consume_up_to_done [OF pre cs nl d, of p prev]
  show "assistantContent (consume_stream p prev chunks) =
        assistantContent (inner_loop p ((initial_stream_state prev)\<lparr>textBuffer := before\<rparr>))"
    by (rule u(1))
  show "messages (consume_stream p prev chunks) =
        messages (inner_loop p ((initial_stream_state prev)\<lparr>textBuffer := before\<rparr>))"
    by (rule u(2))
  show "updates (consume_stream p prev chunks) =
        updates (inner_loop p ((initial_stream_state prev)\<lparr>textBuffer := before\<rparr>))"
    by (rule u(3))
  show "streamDone (consume_stream p prev chunks) \<longleftrightarrow>
         streamDone (inner_loop p ((initial_stream_state prev)\<lparr>textBuffer := before\<rparr>)) \<or>
         \<not> held_back p (inner_loop p ((initial_stream_state prev)\<lparr>textBuffer := before\<rparr>))"
    by (rule u(4))
qed

theorem done_marker_ends_consumption_witness:
  "consume_stream parse_hello []
      [''data: [DONE]'' @ newline @ hello_line @ newline, hello_line @ newline] =
     (initial_stream_state [])\<lparr>textBuffer := hello_line @ newline, streamDone := True\<rparr> \<and>
   consume_stream parse_hello []
      [hello_chunk1, hello_chunk2 @ ''data: [DONE]'' @ newline @ hello_line @ newline,
       hello_line @ newline] =
     (initial_stream_state [])
        \<lparr>textBuffer := hello_line @ newline, assistantContent := ''Hello'', streamDone := True,
         messages := [\<lparr>msg_role = ''assistant'', content = ''Hello''\<rparr>],
         updates := [''Hello'']\<rparr> \<and>
   assistantContent (consume_stream parse_hello [] [hello_line @ newline, hello_line @ newline]) =
     ''HelloHello'' \<and>
   assistantContent (consume_stream parse_hello []
      [hello_chunk1, hello_chunk2 @ ''data: [DONE]'' @ newline @ hello_line @ newline,
       hello_line @ newline]) =
     assistantContent (inner_loop parse_hello
       ((initial_stream_state [])\<lparr>textBuffer := hello_line @ newline\<rparr>)) \<and>
   inner_loop parse_hello ((initial_stream_state [])\<lparr>textBuffer := ''data: [DONE]'' @ newline @ ''x''\<rparr>) =
     (initial_stream_state [])\<lparr>textBuffer := ''x'', streamDone := True\<rparr> \<and>
   read_loop parse_hello [hello_line @ newline]
     ((initial_stream_state [])\<lparr>streamDone := True\<rparr>) =
     (initial_stream_state [])\<lparr>streamDone := True\<rparr> \<and>
   held_back parse_hello (inner_loop parse_hello
     ((initial_stream_state [])\<lparr>textBuffer := unparsable_line @ newline\<rparr>)) \<and>
   streamDone (consume_stream parse_hello []
      [unparsable_line @ newline @ ''data: [DONE]'' @ newline, hello_line @ newline]) = False \<and>
   assistantContent (consume_stream parse_hello []
      [unparsable_line @ newline @ ''data: [DONE]'' @ newline, hello_line @ newline]) = []"
proof -
  note t = done_marker_ends_consumption [where p = parse_hello and prev = "[]"
      and rest = "hello_line @ newline" and later = "[hello_line @ newline]"]
  have a: "consume_stream parse_hello []
      [''data: [DONE]'' @ newline @ hello_line @ newline, hello_line @ newline] =
     (initial_stream_state [])\<lparr>textBuffer := hello_line @ newline, streamDone := True\<rparr>"
    using t by blast
  have b: "consume_stream parse_hello []
      [hello_chunk1, hello_chunk2 @ ''data: [DONE]'' @ newline @ hello_line @ newline,
       hello_line @ newline] =
     (initial_stream_state [])
        \<lparr>textBuffer := hello_line @ newline, assistantContent := ''Hello'', streamDone := True,
         messages := [] @ [\<lparr>msg_role = ''assistant'', content = ''Hello''\<rparr>],
         updates := [''Hello'']\<rparr>"
    using t parse_hello_text by blast
  have l: "process_line parse_hello (strip_cr hello_line) = Append (JString ''Hello'')"
    by (rule process_hello_line [of parse_hello, OF parse_hello_text])
  let ?i = "initial_stream_state []"
  let ?s1 = "append_content (JString ''Hello'') ?i"
  have i: "textBuffer ?i = []" "\<not> streamDone ?i" "?i\<lparr>textBuffer := []\<rparr> = ?i"
    by (simp_all add: initial_stream_state_def)
  have s1: "textBuffer ?s1 = []" "\<not> streamDone ?s1" "?s1\<lparr>textBuffer := []\<rparr> = ?s1"
    by (simp_all add: append_content_def initial_stream_state_def Let_def)
  have 1: "inner_loop parse_hello (?i\<lparr>textBuffer := hello_line @ newline\<rparr>) = ?s1"
    using inner_loop_append_line [OF hello_line_no_newline _ l,
        of "?i\<lparr>textBuffer := hello_line @ newline\<rparr>"] i
    by simp
  have 2: "inner_loop parse_hello (?s1\<lparr>textBuffer := hello_line @ newline\<rparr>) =
             append_content (JString ''Hello'') ?s1"
    using inner_loop_append_line [OF hello_line_no_newline _ l,
        of "?s1\<lparr>textBuffer := hello_line @ newline\<rparr>"] s1
    by simp
  have "consume_stream parse_hello [] [hello_line @ newline, hello_line @ newline] =
          append_content (JString ''Hello'') ?s1"
    using i s1 1 2 by (simp add: consume_stream_def)
  then have c: "assistantContent
      (consume_stream parse_hello [] [hello_line @ newline, hello_line @ newline]) = ''HelloHello''"
    by (simp add: append_content_def initial_stream_state_def Let_def)
  have cc: "concat [hello_chunk1, hello_chunk2 @ ''data: [DONE]'' @ newline @ hello_line @ newline,
       hello_line @ newline] =
     (hello_line @ newline) @ ''data: [DONE]'' @ newline @ (hello_line @ newline) @ hello_line @ newline"
    using hello_chunks by (metis append.assoc append_Nil2 concat.simps)
  have d: "assistantContent (consume_stream parse_hello []
      [hello_chunk1, hello_chunk2 @ ''data: [DONE]'' @ newline @ hello_line @ newline,
       hello_line @ newline]) =
     assistantContent (inner_loop parse_hello (?i\<lparr>textBuffer := hello_line @ newline\<rparr>))"
    using done_marker_ends_consumption [where p = parse_hello and prev = "[]"
        and before = "hello_line @ newline" and l = "''data: [DONE]''"
        and rest = "(hello_line @ newline) @ hello_line @ newline"
        and chunks = "[hello_chunk1, hello_chunk2 @ ''data: [DONE]'' @ newline @ hello_line @ newline,
          hello_line @ newline]"]
      cc done_line
    by (simp add: newline_def)
  have e: "inner_loop parse_hello (?i\<lparr>textBuffer := ''data: [DONE]'' @ newline @ ''x''\<rparr>) =
     ?i\<lparr>textBuffer := ''x'', streamDone := True\<rparr>"
    using done_marker_ends_consumption [where p = parse_hello and l = "''data: [DONE]''"
        and rest = "''x''" and st = "?i\<lparr>textBuffer := ''data: [DONE]'' @ newline @ ''x''\<rparr>"]
      done_line
    by simp
  have f: "read_loop parse_hello [hello_line @ newline] (?i\<lparr>streamDone := True\<rparr>) =
     ?i\<lparr>streamDone := True\<rparr>"
    using done_marker_ends_consumption [where p = parse_hello
        and st = "?i\<lparr>streamDone := True\<rparr>" and chunks = "[hello_line @ newline]"]
    by simp
  let ?u = "?i\<lparr>textBuffer := unparsable_line @ newline\<rparr>"
  have u: "inner_loop parse_hello ?u = ?u"
    using inner_loop_unparsable [of ?u "[]"] by simp
  have g: "held_back parse_hello (inner_loop parse_hello ?u)"
    unfolding u using held_back_line [OF unparsable_line(1), of ?u "[]" parse_hello] unparsable_line(3)
    by simp
  have nd: "\<not> streamDone (inner_loop parse_hello ?u)"
    unfolding u by (simp add: initial_stream_state_def)
  have ac: "assistantContent (inner_loop parse_hello ?u) = []"
    unfolding u by (simp add: initial_stream_state_def)
  have uc: "concat [unparsable_line @ newline @ ''data: [DONE]'' @ newline, hello_line @ newline] =
     (unparsable_line @ newline) @ ''data: [DONE]'' @ newline @ hello_line @ newline"
    by simp
  note h = done_marker_ends_consumption [where p = parse_hello and prev = "[]"
        and before = "unparsable_line @ newline" and l = "''data: [DONE]''"
        and rest = "hello_line @ newline"
        and chunks = "[unparsable_line @ newline @ ''data: [DONE]'' @ newline, hello_line @ newline]"]
  have h1: "streamDone (consume_stream parse_hello []
      [unparsable_line @ newline @ ''data: [DONE]'' @ newline, hello_line @ newline]) = False"
    using h uc done_line g nd by (simp add: newline_def)
  have h2: "assistantContent (consume_stream parse_hello []
      [unparsable_line @ newline @ ''data: [DONE]'' @ newline, hello_line @ newline]) = []"
    using h uc done_line ac by (simp add: newline_def)
  from a b c d e f g h1 h2 show ?thesis by simp
qed

text \<open>
  The claim as the specification words it fails on a stream that holds a terminator
  line behind a data line \<open>JSON.parse\<close> rejects: the first read puts the line
  \<open>data: {oops\<close> back and breaks before the terminator, the consumer does not end there,
  the next chunk is read into the buffer, and \<open>streamDone\<close> is unset when the stream ends.
\<close>

theorem terminator_not_reached_counterexample:
  "consume_stream parse_hello []
     [unparsable_line @ newline @ ''data: [DONE]'' @ newline, hello_line @ newline] =
   (initial_stream_state [])
     \<lparr>textBuffer := unparsable_line @ newline @ ''data: [DONE]'' @ newline @ hello_line @ newline\<rparr> \<and>
   \<not> streamDone (consume_stream parse_hello []
     [unparsable_line @ newline @ ''data: [DONE]'' @ newline, hello_line @ newline])"
proof -
  let ?i = "initial_stream_state []"
  let ?c1 = "unparsable_line @ newline @ ''data: [DONE]'' @ newline"
  let ?c2 = "hello_line @ newline"
  have i: "textBuffer ?i = []" "\<not> streamDone ?i" by (simp_all add: initial_stream_state_def)
  have 1: "inner_loop parse_hello (?i\<lparr>textBuffer := ?c1\<rparr>) = ?i\<lparr>textBuffer := ?c1\<rparr>"
    using inner_loop_unparsable [of "?i\<lparr>textBuffer := ?c1\<rparr>" "''data: [DONE]'' @ newline"]
    by simp
  have 2: "inner_loop parse_hello (?i\<lparr>textBuffer := ?c1 @ ?c2\<rparr>) = ?i\<lparr>textBuffer := ?c1 @ ?c2\<rparr>"
    using inner_loop_unparsable [of "?i\<lparr>textBuffer := ?c1 @ ?c2\<rparr>"
        "''data: [DONE]'' @ newline @ hello_line @ newline"]
    by simp
  have "consume_stream parse_hello [] [?c1, ?c2] = ?i\<lparr>textBuffer := ?c1 @ ?c2\<rparr>"
    using i 1 2 by (simp add: consume_stream_def)
  then show ?thesis by (simp add: initial_stream_state_def)
qed

end
